theory Spec2Isabelle
  imports Main
begin

text \<open>
  The protocol engine of the key-value server: the reply values with their serialisation
  to RESP bytes (\<^verbatim>\<open>redis/protocol/reply.go\<close>) and the streaming decoder
  (\<^verbatim>\<open>parse0\<close> with \<^verbatim>\<open>parseBulkString\<close>, \<^verbatim>\<open>parseArray\<close> and
  \<^verbatim>\<open>parseRDBBulkString\<close>) that turns a byte stream into payloads on a channel. The
  functions are embedded as HOL functions; what the decoder sends, closes and logs is the
  list of events its run produces.
\<close>

section \<open>Bytes, errors and the decimal conversions of strconv\<close>

text \<open>
  A Go \<^verbatim>\<open>[]byte\<close> and a Go \<^verbatim>\<open>string\<close> are both sequences of bytes; \<open>char\<close> is
  the 8-bit byte, so both are \<open>char list\<close>. A slice that may be \<^verbatim>\<open>nil\<close> is a
  \<open>bytes option\<close>: \<open>None\<close> is \<^verbatim>\<open>nil\<close>, \<open>Some []\<close> is the empty, non-nil slice
  (\<^verbatim>\<open>[]byte{}\<close>, \<^verbatim>\<open>body[:0]\<close>).
\<close>

type_synonym bytes = "char list"

definition CR :: char where "CR = CHR 0x0D"
definition LF :: char where "LF = CHR 0x0A"

text \<open>\<^verbatim>\<open>CRLF = "\r\n"\<close> (reply.go).\<close>

definition CRLF :: bytes where "CRLF = [CR, LF]"

text \<open>
  The error values the decoder hands out: \<^verbatim>\<open>io.EOF\<close>, \<^verbatim>\<open>io.ErrUnexpectedEOF\<close> and
  \<^verbatim>\<open>errors.New(text)\<close>.
\<close>

datatype error = EOF | ErrUnexpectedEOF | ErrorString string

text \<open>
  \<^verbatim>\<open>strconv.FormatInt(i, 10)\<close> and \<^verbatim>\<open>strconv.Itoa(i)\<close>: the canonical decimal numeral,
  most significant digit first, with a leading \<^verbatim>\<open>-\<close> for a negative number.
\<close>

definition digit_char :: "nat \<Rightarrow> char" where
  "digit_char d = ''0123456789'' ! d"

fun formatUint :: "nat \<Rightarrow> string" where
  "formatUint n = (if n < 10 then [digit_char n]
                   else formatUint (n div 10) @ [digit_char (n mod 10)])"

declare formatUint.simps [simp del]

definition FormatInt :: "int \<Rightarrow> string" where
  "FormatInt i = (if i < 0 then CHR ''-'' # formatUint (nat (- i)) else formatUint (nat i))"

definition Itoa :: "nat \<Rightarrow> string" where
  "Itoa i = FormatInt (int i)"

text \<open>
  \<^verbatim>\<open>strconv.ParseUint(s, 10, bitSize)\<close> accepts a non-empty run of the digits 0 to 9 and
  nothing else (with an explicit base 10 no underscore and no base prefix is allowed);
  \<^verbatim>\<open>strconv.ParseInt(s, 10, bitSize)\<close> strips one optional sign first and then checks
  the magnitude against \<open>2 ^ (bitSize - 1)\<close>. Every caller in the decoder tests
  \<^verbatim>\<open>err != nil\<close> before it looks at the number, so a syntax error and a range error are
  both \<open>None\<close>. The magnitude is accumulated in an unbounded \<open>nat\<close>: Go reports a range
  error exactly when that magnitude leaves the signed range.
\<close>

definition digit_val :: "char \<Rightarrow> nat option" where
  "digit_val c = map_of (zip ''0123456789'' [0, 1, 2, 3, 4, 5, 6, 7, 8, 9]) c"

fun parseDigits :: "string \<Rightarrow> nat \<Rightarrow> nat option" where
  "parseDigits [] n = Some n"
| "parseDigits (c # cs) n =
     (case digit_val c of None \<Rightarrow> None | Some d \<Rightarrow> parseDigits cs (n * 10 + d))"

definition ParseUint :: "string \<Rightarrow> nat option" where
  "ParseUint s = (if s = [] then None else parseDigits s 0)"

definition ParseInt :: "string \<Rightarrow> nat \<Rightarrow> int option" where
  "ParseInt s bitSize =
     (if s = [] then None
      else let neg = (hd s = CHR ''-'');
               s1 = (if hd s = CHR ''+'' \<or> hd s = CHR ''-'' then tl s else s)
           in case ParseUint s1 of
                None \<Rightarrow> None
              | Some un \<Rightarrow>
                  let cutoff = (2::nat) ^ (bitSize - 1)
                  in if \<not> neg \<and> un \<ge> cutoff then None
                     else if neg \<and> un > cutoff then None
                     else Some (if neg then - int un else int un))"

section \<open>Replies and their serialisation (redis/protocol/reply.go)\<close>

text \<open>
  \<^verbatim>\<open>redis.Reply\<close> is an interface with the one method \<^verbatim>\<open>ToBytes\<close>. The datatype has
  one constructor for each implementation in reply.go and \<open>OtherReply\<close> for any other
  implementation of the interface, known only by the bytes its \<^verbatim>\<open>ToBytes\<close> returns.
  \<open>IntReply\<close> carries an \<^verbatim>\<open>int64\<close>: an \<open>int\<close> in \<open>[- 2^63, 2^63)\<close>.
\<close>

datatype reply =
    BulkReply "bytes option"
  | MultiBulkReply "bytes option list"
  | MultiRawReply "reply list"
  | StatusReply string
  | IntReply int
  | StandardErrReply string
  | OtherReply bytes

text \<open>
  Modelled from the spec: \<^verbatim>\<open>nullBulkBytes\<close>, which \<^verbatim>\<open>BulkReply.ToBytes\<close> returns for a
  \<^verbatim>\<open>nil\<close> argument, is declared outside the given sources; the spec gives
  \<^verbatim>\<open>Bulk(absent)\<close> the bytes \<^verbatim>\<open>"$-1\r\n"\<close>.
\<close>

definition nullBulkBytes :: bytes where
  "nullBulkBytes = ''$-1'' @ CRLF"

text \<open>
  \<^verbatim>\<open>MultiBulkReply.ToBytes\<close>: the first loop adds up the buffer length, the second
  writes into the buffer; a write appends to what the buffer holds.
\<close>

fun bufLen_loop :: "bytes option list \<Rightarrow> nat \<Rightarrow> nat" where
  "bufLen_loop [] bufLen = bufLen"
| "bufLen_loop (None # args) bufLen = bufLen_loop args (bufLen + (3 + 2))"
| "bufLen_loop (Some arg # args) bufLen =
     bufLen_loop args (bufLen + (1 + length (Itoa (length arg)) + 2 + length arg + 2))"

definition MultiBulk_bufLen :: "bytes option list \<Rightarrow> nat" where
  "MultiBulk_bufLen args = bufLen_loop args (1 + length (Itoa (length args)) + 2)"

fun write_loop :: "bytes option list \<Rightarrow> bytes \<Rightarrow> bytes" where
  "write_loop [] buf = buf"
| "write_loop (None # args) buf = write_loop args ((buf @ ''$-1'') @ CRLF)"
| "write_loop (Some arg # args) buf =
     write_loop args (((((buf @ ''$'') @ Itoa (length arg)) @ CRLF) @ arg) @ CRLF)"

definition MultiBulk_ToBytes :: "bytes option list \<Rightarrow> bytes" where
  "MultiBulk_ToBytes args = write_loop args ((([] @ ''*'') @ Itoa (length args)) @ CRLF)"

fun ToBytes :: "reply \<Rightarrow> bytes" where
  "ToBytes (BulkReply None) = nullBulkBytes"
| "ToBytes (BulkReply (Some arg)) = ''$'' @ Itoa (length arg) @ CRLF @ arg @ CRLF"
| "ToBytes (MultiBulkReply args) = MultiBulk_ToBytes args"
| "ToBytes (MultiRawReply replies) =
     (''*'' @ Itoa (length replies) @ CRLF) @ concat (map ToBytes replies)"
| "ToBytes (StatusReply status) = ''+'' @ status @ CRLF"
| "ToBytes (IntReply code) = '':'' @ FormatInt code @ CRLF"
| "ToBytes (StandardErrReply status) = ''-'' @ status @ CRLF"
| "ToBytes (OtherReply bs) = bs"

text \<open>
  \<^verbatim>\<open>Try2ErrorReply\<close>: \<open>None\<close> is the \<^verbatim>\<open>nil\<close> error, \<open>Some (ErrorString t)\<close> is
  \<^verbatim>\<open>errors.New(t)\<close>.
\<close>

definition Try2ErrorReply :: "reply \<Rightarrow> error option" where
  "Try2ErrorReply reply =
     (let str = ToBytes reply
      in if length str = 0 then Some (ErrorString ''empty reply'')
         else if str ! 0 \<noteq> CHR ''-'' then None
         else Some (ErrorString (drop 1 str)))"

text \<open>
  The spec's \<open>digits\<close>: the number of decimal digits of a count or a length.
\<close>

fun digits :: "nat \<Rightarrow> nat" where
  "digits n = (if n < 10 then 1 else 1 + digits (n div 10))"

declare digits.simps [simp del]

text \<open>
  The spec's term for one element in its closed form of the serialised length:
  \<^verbatim>\<open>elem absent ? 3+2 : 1+digits(len(elem))+2+len(elem)+2\<close>.
\<close>

definition elem_len :: "bytes option \<Rightarrow> nat" where
  "elem_len e = (case e of None \<Rightarrow> 3 + 2 | Some b \<Rightarrow> 1 + digits (length b) + 2 + length b + 2)"


section \<open>The byte source\<close>

text \<open>
  The decoder reads through a \<^verbatim>\<open>bufio.Reader\<close>. The byte source is a finite sequence
  of bytes followed by the end of the stream: the reader's state is the list of bytes not
  yet consumed, and a read that runs past its end fails as Go's does at end of stream.

  \<^verbatim>\<open>ReadBytes(delim)\<close> returns the bytes up to and including the first delimiter, or
  \<^verbatim>\<open>io.EOF\<close> when the stream ends first (its callers drop the partial line).
  \<^verbatim>\<open>io.ReadFull(reader, body)\<close> fills all \<open>n\<close> bytes of the buffer, or fails with
  \<^verbatim>\<open>io.EOF\<close> when no byte was left and \<^verbatim>\<open>io.ErrUnexpectedEOF\<close> when some were.
\<close>

fun ReadBytes :: "char \<Rightarrow> bytes \<Rightarrow> error + (bytes \<times> bytes)" where
  "ReadBytes delim [] = Inl EOF"
| "ReadBytes delim (c # cs) =
     (if c = delim then Inr ([c], cs)
      else case ReadBytes delim cs of
             Inl err \<Rightarrow> Inl err
           | Inr (line, rd) \<Rightarrow> Inr (c # line, rd))"

definition ReadFull :: "bytes \<Rightarrow> nat \<Rightarrow> error + (bytes \<times> bytes)" where
  "ReadFull rd n =
     (if n \<le> length rd then Inr (take n rd, drop n rd)
      else if rd = [] then Inl EOF
      else Inl ErrUnexpectedEOF)"

text \<open>\<^verbatim>\<open>bytes.TrimSuffix\<close>, \<^verbatim>\<open>strings.HasPrefix\<close>, the slice expression \<^verbatim>\<open>s[a:b]\<close> (used
  only where \<open>a \<le> b \<le> length s\<close> has been checked) and \<^verbatim>\<open>bytes.Split\<close> on a one-byte
  separator.\<close>

definition TrimSuffix :: "bytes \<Rightarrow> bytes \<Rightarrow> bytes" where
  "TrimSuffix s suffix =
     (if length suffix \<le> length s \<and> drop (length s - length suffix) s = suffix
      then take (length s - length suffix) s else s)"

definition HasPrefix :: "string \<Rightarrow> string \<Rightarrow> bool" where
  "HasPrefix s pre = (length pre \<le> length s \<and> take (length pre) s = pre)"

definition slice :: "bytes \<Rightarrow> nat \<Rightarrow> nat \<Rightarrow> bytes" where
  "slice s a b = take (b - a) (drop a s)"

fun Split :: "bytes \<Rightarrow> char \<Rightarrow> bytes list" where
  "Split [] sep = [[]]"
| "Split (c # cs) sep =
     (if c = sep then [] # Split cs sep
      else case Split cs sep of
             [] \<Rightarrow> [[c]]
           | tok # toks \<Rightarrow> (c # tok) # toks)"

text \<open>
  \<^verbatim>\<open>strLen+2\<close> is \<^verbatim>\<open>int64\<close> arithmetic and wraps around. \<^verbatim>\<open>make([]byte, n)\<close>
  panics with "makeslice: len out of range" when \<open>n\<close> is negative or when the \<open>n\<close>
  bytes exceed the runtime's \<^verbatim>\<open>maxAlloc\<close>, which is \<open>2^48\<close> on linux/amd64 (the
  runtime tests \<^verbatim>\<open>len < 0\<close> and \<^verbatim>\<open>mem > maxAlloc\<close>). Below that limit the
  allocation is taken to succeed: the memory of the machine is not modelled. The other
  \<^verbatim>\<open>make\<close> of the decoder, \<^verbatim>\<open>make([][]byte, nStrs)\<close> in \<^verbatim>\<open>parseArray\<close>, asks for
  24 bytes for each of at most \<open>2^31 - 1\<close> entries and stays below the limit.
\<close>

definition maxAlloc :: int where
  "maxAlloc = 2 ^ 48"

definition wrap64 :: "int \<Rightarrow> int" where
  "wrap64 x = (x + 2 ^ 63) mod 2 ^ 64 - 2 ^ 63"

definition make_len :: "int \<Rightarrow> nat option" where
  "make_len n = (if n < 0 \<or> maxAlloc < n then None else Some (nat n))"

section \<open>The streaming decoder (parser)\<close>

text \<open>
  A \<^verbatim>\<open>Payload\<close> has the two fields of the Go struct. What the decoder does to the
  outside is a sequence of events: a send on the channel, the closing of the channel, and
  the call of the logger in the deferred \<^verbatim>\<open>recover\<close>, with the panic it recovered.
\<close>

record payload =
  Data :: "reply option"
  Err :: "error option"

datatype panic = IndexOutOfRange | SliceBoundsOutOfRange | MakesliceLenOutOfRange

datatype event = Send payload | Close | LogError panic

definition dataPayload :: "reply \<Rightarrow> payload" where
  "dataPayload r = \<lparr>Data = Some r, Err = None\<rparr>"

definition errPayload :: "error \<Rightarrow> payload" where
  "errPayload e = \<lparr>Data = None, Err = Some e\<rparr>"

definition protocolError :: "string \<Rightarrow> event list" where
  "protocolError msg = [Send (errPayload (ErrorString (''protocol error: '' @ msg)))]"

definition MakeBulkReply :: "bytes option \<Rightarrow> reply" where
  "MakeBulkReply arg = BulkReply arg"

definition MakeMultiBulkReply :: "bytes option list \<Rightarrow> reply" where
  "MakeMultiBulkReply args = MultiBulkReply args"

definition MakeStatusReply :: "string \<Rightarrow> reply" where
  "MakeStatusReply status = StatusReply status"

definition MakeIntReply :: "int \<Rightarrow> reply" where
  "MakeIntReply code = IntReply code"

definition MakeErrReply :: "string \<Rightarrow> reply" where
  "MakeErrReply status = StandardErrReply status"

text \<open>
  Modelled from the spec: \<^verbatim>\<open>MakeNullBulkReply\<close> and \<^verbatim>\<open>MakeEmptyMultiBulkReply\<close> are
  called by the decoder and declared outside the given sources. The spec has the decoder
  emit \<^verbatim>\<open>Bulk(absent)\<close> for the length -1 and, for the count 0, an empty-array value
  that is a zero-length \<^verbatim>\<open>MultiBulk\<close>.
\<close>

definition MakeNullBulkReply :: reply where
  "MakeNullBulkReply = BulkReply None"

definition MakeEmptyMultiBulkReply :: reply where
  "MakeEmptyMultiBulkReply = MultiBulkReply []"

text \<open>
  How a helper of the decode loop ends: it returns \<^verbatim>\<open>nil\<close> and leaves the reader at
  the given remaining input, it returns an error, or it panics.
\<close>

datatype result = Next bytes | Failed error | Panicked panic

definition parseBulkString :: "bytes \<Rightarrow> bytes \<Rightarrow> event list \<times> result" where
  "parseBulkString header rd =
     (if length header < 1 then ([], Panicked SliceBoundsOutOfRange)
      else (case ParseInt (drop 1 header) 64 of
        None \<Rightarrow> (protocolError (''illegal bulk string header: '' @ header), Next rd)
      | Some strLen \<Rightarrow>
          if strLen < - 1
          then (protocolError (''illegal bulk string header: '' @ header), Next rd)
          else if strLen = - 1 then ([Send (dataPayload MakeNullBulkReply)], Next rd)
          else (case make_len (wrap64 (strLen + 2)) of
            None \<Rightarrow> ([], Panicked MakesliceLenOutOfRange)
          | Some n \<Rightarrow>
              (case ReadFull rd n of
                 Inl err \<Rightarrow> ([], Failed err)
               | Inr (body, rd') \<Rightarrow>
                   ([Send (dataPayload (MakeBulkReply (Some (slice body 0 (length body - 2)))))],
                    Next rd')))))"

definition parseRDBBulkString :: "bytes \<Rightarrow> event list \<times> result" where
  "parseRDBBulkString rd =
     (case ReadBytes LF rd of
        Inl err \<Rightarrow> ([], Failed (ErrorString ''failed to read bytes''))
      | Inr (header0, rd1) \<Rightarrow>
          (let header = TrimSuffix header0 CRLF
           in if length header = 0 then ([], Failed (ErrorString ''empty header''))
              else (case ParseInt (drop 1 header) 64 of
                None \<Rightarrow> ([], Failed (ErrorString (''illegal bulk header'' @ header)))
              | Some strLen \<Rightarrow>
                  if strLen \<le> 0
                  then ([], Failed (ErrorString (''illegal bulk header'' @ header)))
                  else (case make_len strLen of
                    None \<Rightarrow> ([], Panicked MakesliceLenOutOfRange)
                  | Some n \<Rightarrow>
                      (case ReadFull rd1 n of
                         Inl err \<Rightarrow> ([], Failed err)
                       | Inr (body, rd2) \<Rightarrow>
                           ([Send (dataPayload (MakeBulkReply (Some body)))], Next rd2))))))"

text \<open>
  The loop of \<^verbatim>\<open>parseArray\<close>, by the number of iterations still to run. It carries
  \<^verbatim>\<open>lines\<close> and the reader; \<^verbatim>\<open>append\<close> adds at the end of \<^verbatim>\<open>lines\<close>. A
  \<^verbatim>\<open>break\<close> and the normal end of the loop both fall through to the statement after
  the loop, so both end in \<open>Next\<close>.
\<close>

fun parseArray_loop ::
  "nat \<Rightarrow> bytes option list \<Rightarrow> bytes \<Rightarrow> event list \<times> bytes option list \<times> result" where
  "parseArray_loop 0 lines rd = ([], lines, Next rd)"
| "parseArray_loop (Suc k) lines rd =
     (case ReadBytes LF rd of
        Inl err \<Rightarrow> ([], lines, Failed err)
      | Inr (line, rd1) \<Rightarrow>
          if length line < 4 \<or> line ! (length line - 2) \<noteq> CR \<or> line ! 0 \<noteq> CHR ''$''
          then (protocolError (''illegal bulk string header '' @ line), lines, Next rd1)
          else (case ParseInt (slice line 1 (length line - 2)) 64 of
            None \<Rightarrow> (protocolError (''illegal bulk string header: '' @ line), lines, Next rd1)
          | Some strLen \<Rightarrow>
              if strLen < - 1
              then (protocolError (''illegal bulk string header: '' @ line), lines, Next rd1)
              else if strLen = - 1 then parseArray_loop k (lines @ [Some []]) rd1
              else (case make_len (wrap64 (strLen + 2)) of
                None \<Rightarrow> ([], lines, Panicked MakesliceLenOutOfRange)
              | Some n \<Rightarrow>
                  (case ReadFull rd1 n of
                     Inl err \<Rightarrow> ([], lines, Failed err)
                   | Inr (body, rd2) \<Rightarrow>
                       parseArray_loop k (lines @ [Some (slice body 0 (nat strLen))]) rd2))))"

text \<open>After the loop \<^verbatim>\<open>parseArray\<close> sends \<^verbatim>\<open>lines\<close>, unless the loop returned an
  error or panicked.\<close>

fun parseArray_end :: "event list \<times> bytes option list \<times> result \<Rightarrow> event list \<times> result" where
  "parseArray_end (evs, lines, Next rd') =
     (evs @ [Send (dataPayload (MakeMultiBulkReply lines))], Next rd')"
| "parseArray_end (evs, lines, res) = (evs, res)"

definition parseArray :: "bytes \<Rightarrow> bytes \<Rightarrow> event list \<times> result" where
  "parseArray header rd =
     (if length header < 1 then ([], Panicked SliceBoundsOutOfRange)
      else (case ParseInt (drop 1 header) 32 of
        None \<Rightarrow> (protocolError (''illegal array header '' @ drop 1 header), Next rd)
      | Some nStrs \<Rightarrow>
          if nStrs < 0 then (protocolError (''illegal array header '' @ drop 1 header), Next rd)
          else if nStrs = 0 then ([Send (dataPayload MakeEmptyMultiBulkReply)], Next rd)
          else parseArray_end (parseArray_loop (nat nStrs) (replicate (nat nStrs) None) rd)))"

text \<open>
  What \<^verbatim>\<open>parse0\<close> does when a helper comes back: on \<^verbatim>\<open>nil\<close> the loop goes on, on an
  error the error is sent, the channel closed and \<^verbatim>\<open>parse0\<close> returns, on a panic the
  deferred function logs it and \<^verbatim>\<open>parse0\<close> returns with the channel still open.
  \<open>Some rd\<close> is "next iteration with the reader at \<open>rd\<close>", \<open>None\<close> is "returned".
\<close>

fun after_call :: "event list \<times> result \<Rightarrow> event list \<times> bytes option" where
  "after_call (evs, Next rd) = (evs, Some rd)"
| "after_call (evs, Failed err) = (evs @ [Send (errPayload err), Close], None)"
| "after_call (evs, Panicked p) = (evs @ [LogError p], None)"

text \<open>
  The \<^verbatim>\<open>switch line[0]\<close> of \<^verbatim>\<open>parse0\<close>, on the line without its terminator and
  the reader behind the line. Indexing an empty line panics.
\<close>

definition parse0_switch :: "bytes \<Rightarrow> bytes \<Rightarrow> event list \<times> bytes option" where
  "parse0_switch line rd1 =
     (if length line < 1 then ([LogError IndexOutOfRange], None)
      else if line ! 0 = CHR ''+'' then
        (let content = drop 1 line
         in if HasPrefix content ''FULLRESYNC''
            then (case after_call (parseRDBBulkString rd1) of
                    (evs, nxt) \<Rightarrow> (Send (dataPayload (MakeStatusReply content)) # evs, nxt))
            else ([Send (dataPayload (MakeStatusReply content))], Some rd1))
      else if line ! 0 = CHR ''-'' then
        ([Send (dataPayload (MakeErrReply (drop 1 line)))], Some rd1)
      else if line ! 0 = CHR '':'' then
        (case ParseInt (drop 1 line) 64 of
           None \<Rightarrow> (protocolError (''illegal number '' @ drop 1 line), Some rd1)
         | Some v \<Rightarrow> ([Send (dataPayload (MakeIntReply v))], Some rd1))
      else if line ! 0 = CHR ''$'' then after_call (parseBulkString line rd1)
      else if line ! 0 = CHR ''*'' then after_call (parseArray line rd1)
      else ([Send (dataPayload (MakeMultiBulkReply (map Some (Split line CHR '' ''))))],
            Some rd1))"

text \<open>One iteration of the \<^verbatim>\<open>for\<close> loop of \<^verbatim>\<open>parse0\<close>: read a line, skip it or
  strip its terminator and go through the switch.\<close>

definition parse0_body :: "bytes \<Rightarrow> event list \<times> bytes option" where
  "parse0_body rd =
     (case ReadBytes LF rd of
        Inl err \<Rightarrow> ([Send (errPayload err), Close], None)
      | Inr (line0, rd1) \<Rightarrow>
          if length line0 \<le> 2 \<or> line0 ! (length line0 - 2) \<noteq> CR then ([], Some rd1)
          else parse0_switch (TrimSuffix line0 CRLF) rd1)"

text \<open>Every helper leaves the reader at a suffix of where it found it, and an iteration
  that goes on has consumed at least one byte: the loop ends on every finite input.\<close>

lemma ReadBytes_shorter: "ReadBytes d rd = Inr (line, rd1) \<Longrightarrow> length rd1 < length rd"
  by (induction rd arbitrary: line) (auto split: if_splits sum.splits)

lemma ReadFull_shorter: "ReadFull rd n = Inr (body, rd') \<Longrightarrow> length rd' \<le> length rd"
  by (auto simp: ReadFull_def split: if_splits)

lemma parseBulkString_shorter:
  "parseBulkString header rd = (evs, Next rd') \<Longrightarrow> length rd' \<le> length rd"
  by (auto simp: parseBulkString_def split: if_splits option.splits sum.splits
           dest: ReadFull_shorter)

lemma parseRDBBulkString_shorter:
  "parseRDBBulkString rd = (evs, Next rd') \<Longrightarrow> length rd' \<le> length rd"
  by (auto simp: parseRDBBulkString_def Let_def split: if_splits option.splits sum.splits
           dest!: ReadFull_shorter ReadBytes_shorter)

lemma parseArray_loop_shorter:
  "parseArray_loop k lines rd = (evs, lines', Next rd') \<Longrightarrow> length rd' \<le> length rd"
proof (induction k arbitrary: lines rd)
  case 0
  then show ?case by simp
next
  case (Suc k)
  show ?case
  proof (cases "ReadBytes LF rd")
    case (Inl err)
    with Suc.prems show ?thesis by simp
  next
    case (Inr p)
    obtain line rd1 where p: "p = (line, rd1)" by (cases p)
    from Inr p have lt: "length rd1 < length rd" by (auto dest: ReadBytes_shorter)
    from Suc.prems Inr p lt show ?thesis
      by (auto split: if_splits option.splits sum.splits
               dest!: Suc.IH ReadFull_shorter)
  qed
qed

lemma parseArray_end_Next:
  "parseArray_end c = (evs, Next rd') \<Longrightarrow> \<exists>evs0 lines. c = (evs0, lines, Next rd')"
  by (cases c rule: parseArray_end.cases) auto

lemma parseArray_shorter:
  "parseArray header rd = (evs, Next rd') \<Longrightarrow> length rd' \<le> length rd"
  by (auto simp: parseArray_def split: if_splits option.splits
           dest!: parseArray_end_Next parseArray_loop_shorter)

lemma after_call_Some:
  "after_call c = (evs, Some rd') \<Longrightarrow> \<exists>evs0. c = (evs0, Next rd')"
  by (cases c rule: after_call.cases) auto

lemma parse0_switch_shorter:
  "parse0_switch line rd1 = (evs, Some rd') \<Longrightarrow> length rd' \<le> length rd1"
  unfolding parse0_switch_def
  by (auto simp: Let_def split: if_splits option.splits prod.splits
           dest!: after_call_Some parseBulkString_shorter
                  parseRDBBulkString_shorter parseArray_shorter)

lemma parse0_body_shorter:
  "parse0_body rd = (evs, Some rd') \<Longrightarrow> length rd' < length rd"
  unfolding parse0_body_def
  by (auto split: sum.splits if_splits dest!: ReadBytes_shorter parse0_switch_shorter)

text \<open>
  \<^verbatim>\<open>parse0\<close>: the events of the decoder on the given input, from the first read until
  it returns.
\<close>

function parse0 :: "bytes \<Rightarrow> event list" where
  "parse0 rd =
     (case parse0_body rd of
        (evs, None) \<Rightarrow> evs
      | (evs, Some rd') \<Rightarrow> evs @ parse0 rd')"
  by pat_completeness auto
termination
  by (relation "measure length") (auto dest: parse0_body_shorter [OF sym])

declare parse0.simps [simp del]


text \<open>
  The payloads of a run. A protocol error is an error made by \<^verbatim>\<open>protocolError\<close>: its
  text starts with \<^verbatim>\<open>protocol error: \<close>. An ordinary event is the sending of a payload
  that holds either data and no error, or a protocol error and no data: after it the
  decoder goes on. A terminal event is the sending of a payload that holds no data and an
  error that is not a protocol error.
\<close>

definition is_protocolError :: "error \<Rightarrow> bool" where
  "is_protocolError e =
     (case e of ErrorString s \<Rightarrow> HasPrefix s ''protocol error: '' | _ \<Rightarrow> False)"

fun ordinary :: "event \<Rightarrow> bool" where
  "ordinary (Send p) =
     (case (Data p, Err p) of
        (Some r, None) \<Rightarrow> True
      | (None, Some e) \<Rightarrow> is_protocolError e
      | _ \<Rightarrow> False)"
| "ordinary ev = False"

fun terminal :: "event \<Rightarrow> bool" where
  "terminal (Send p) =
     (case (Data p, Err p) of
        (None, Some e) \<Rightarrow> \<not> is_protocolError e
      | _ \<Rightarrow> False)"
| "terminal ev = False"

text \<open>
  The shape of a finished run: ordinary events, and then either one terminal event and
  the closing of the channel, or a logged panic, with the channel left open. Nothing
  follows either end.
\<close>

fun terminated :: "event list \<Rightarrow> bool" where
  "terminated [] = False"
| "terminated (Send p # es) =
     (if es = [Close] then terminal (Send p) else ordinary (Send p) \<and> terminated es)"
| "terminated (LogError q # es) = (es = [])"
| "terminated (Close # es) = False"

text \<open>
  What a helper may hand back to \<^verbatim>\<open>parse0\<close>, and what an iteration of the loop may
  leave: a helper has sent ordinary payloads only and an error it returns is not a
  protocol error; an iteration that goes on has sent ordinary payloads only, and one that
  returns has finished the run.
\<close>

fun helper_ok :: "event list \<times> result \<Rightarrow> bool" where
  "helper_ok (evs, Failed e) = (list_all ordinary evs \<and> \<not> is_protocolError e)"
| "helper_ok (evs, res) = list_all ordinary evs"


section \<open>Frames on the wire\<close>

text \<open>
  A nested element of an array frame as the decoder accepts it: a header line
  \<^verbatim>\<open>$<digits>\<close> whose digits parse to the length of the payload, the payload and two
  closing bytes; or a header line whose digits parse to -1 and nothing more. The value
  the decoder keeps for the element is the payload, and the empty slice for -1.
\<close>

datatype elem = Elem string bytes bytes | NullElem string

fun elem_wire :: "elem \<Rightarrow> bytes" where
  "elem_wire (Elem ds b t) = CHR ''$'' # ds @ CRLF @ b @ t"
| "elem_wire (NullElem ds) = CHR ''$'' # ds @ CRLF"

text \<open>The buffer of \<open>length + 2\<close> bytes must be one that \<^verbatim>\<open>make\<close> allocates.\<close>

fun elem_ok :: "elem \<Rightarrow> bool" where
  "elem_ok (Elem ds b t) =
     (ParseInt ds 64 = Some (int (length b)) \<and> int (length b) + 2 \<le> maxAlloc \<and> length t = 2)"
| "elem_ok (NullElem ds) = (ParseInt ds 64 = Some (- 1))"

fun elem_value :: "elem \<Rightarrow> bytes" where
  "elem_value (Elem ds b t) = b"
| "elem_value (NullElem ds) = []"






section \<open>Lines, reads and decimal numerals\<close>

text \<open>Unfolding the loop of \<^verbatim>\<open>parse0\<close> by one iteration.\<close>

lemma parse0_None: "parse0_body rd = (evs, None) \<Longrightarrow> parse0 rd = evs"
  by (subst parse0.simps) simp

lemma parse0_Some: "parse0_body rd = (evs, Some rd') \<Longrightarrow> parse0 rd = evs @ parse0 rd'"
  by (subst parse0.simps) simp

lemma parse0_Nil: "parse0 [] = [Send (errPayload EOF), Close]"
  by (rule parse0_None) (simp add: parse0_body_def)

text \<open>What the reads return on an input that is given by its parts.\<close>

lemma ReadBytes_line: "d \<notin> set l \<Longrightarrow> ReadBytes d (l @ d # rest) = Inr (l @ [d], rest)"
  by (induction l) auto

lemma ReadBytes_EOF: "d \<notin> set l \<Longrightarrow> ReadBytes d l = Inl EOF"
  by (induction l) auto

lemma ReadBytes_last:
  "ReadBytes d rd = Inr (line, rd1) \<Longrightarrow> line \<noteq> [] \<and> last line = d \<and> rd = line @ rd1"
  by (induction rd arbitrary: line) (auto split: if_splits sum.splits)

lemma LF_neq_CR [simp]: "LF \<noteq> CR" "CR \<noteq> LF"
  by (simp_all add: LF_def CR_def)

lemma ReadBytes_CRLF:
  "LF \<notin> set l \<Longrightarrow> ReadBytes LF (l @ CRLF @ rest) = Inr (l @ CRLF, rest)"
  using ReadBytes_line [of LF "l @ [CR]" rest] by (simp add: CRLF_def)

lemma TrimSuffix_CRLF: "TrimSuffix (l @ CRLF) CRLF = l"
  by (simp add: TrimSuffix_def CRLF_def)

lemma parse0_body_line:
  assumes "LF \<notin> set l" "l \<noteq> []"
  shows "parse0_body (l @ CRLF @ rest) = parse0_switch l rest"
proof -
  have r: "ReadBytes LF (l @ CRLF @ rest) = Inr (l @ CRLF, rest)"
    using assms(1) by (rule ReadBytes_CRLF)
  have g: "\<not> (length (l @ CRLF) \<le> 2 \<or> (l @ CRLF) ! (length (l @ CRLF) - 2) \<noteq> CR)"
    using assms(2) by (simp add: CRLF_def nth_append)
  show ?thesis
    unfolding parse0_body_def r using g by (simp add: TrimSuffix_CRLF)
qed

lemma ReadFull_append: "length body = n \<Longrightarrow> ReadFull (body @ rest) n = Inr (body, rest)"
  by (simp add: ReadFull_def)

text \<open>Parsing a printed number gives the number back, as long as it fits the bit size.\<close>

lemma digit_val_digit_char: "d < 10 \<Longrightarrow> digit_val (digit_char d) = Some d"
proof -
  assume "d < 10"
  then consider "d = 0" | "d = 1" | "d = 2" | "d = 3" | "d = 4" | "d = 5" | "d = 6"
    | "d = 7" | "d = 8" | "d = 9" by force
  then show ?thesis by cases (simp_all add: digit_val_def digit_char_def)
qed

lemma digit_val_Some: "digit_val c = Some d \<Longrightarrow> c \<in> set ''0123456789''"
  by (auto simp: digit_val_def split: if_splits)



lemma formatUint_digits: "set (formatUint n) \<subseteq> set ''0123456789''"
proof (induction n rule: formatUint.induct)
  case (1 n)
  have d: "\<And>d. d < 10 \<Longrightarrow> digit_char d \<in> set ''0123456789''"
    using digit_val_digit_char digit_val_Some by blast
  show ?case
  proof (cases "n < 10")
    case True
    then show ?thesis using d [of n] by (subst formatUint.simps) simp
  next
    case False
    with 1 have "set (formatUint (n div 10)) \<subseteq> set ''0123456789''" by simp
    with False show ?thesis using d [of "n mod 10"]
      by (subst formatUint.simps) simp
  qed
qed





lemma FormatInt_no_LF: "LF \<notin> set (FormatInt i)"
  using formatUint_digits [of "nat i"] formatUint_digits [of "nat (- i)"]
  by (auto simp: FormatInt_def LF_def)



section \<open>How a run of the decoder ends\<close>

lemma HasPrefix_append: "HasPrefix (pre @ s) pre"
  by (simp add: HasPrefix_def)

lemma ordinary_Send [simp]:
  "ordinary (Send (dataPayload r))"
  "ordinary (Send (errPayload e)) = is_protocolError e"
  by (simp_all add: dataPayload_def errPayload_def)

lemma terminal_Send [simp]:
  "\<not> terminal (Send (dataPayload r))"
  "terminal (Send (errPayload e)) = (\<not> is_protocolError e)"
  by (simp_all add: dataPayload_def errPayload_def)



declare ordinary.simps(1) [simp del] terminal.simps(1) [simp del]

lemma ordinary_protocolError [simp]: "list_all ordinary (protocolError msg)"
  using HasPrefix_append [of "''protocol error: ''" msg]
  by (simp add: protocolError_def is_protocolError_def)

lemma not_protocolError [simp]:
  "\<not> is_protocolError EOF"
  "\<not> is_protocolError ErrUnexpectedEOF"
  "\<not> is_protocolError (ErrorString ''failed to read bytes'')"
  "\<not> is_protocolError (ErrorString ''empty header'')"
  "\<not> is_protocolError (ErrorString (CHR ''i'' # s))"
  by (simp_all add: is_protocolError_def HasPrefix_def)

lemma ReadBytes_Inl: "ReadBytes d rd = Inl e \<Longrightarrow> e = EOF"
  by (induction rd) (auto split: if_splits sum.splits)

lemma ReadFull_Inl: "ReadFull rd n = Inl e \<Longrightarrow> \<not> is_protocolError e"
  by (auto simp: ReadFull_def split: if_splits)

lemma helper_ok_sends: "helper_ok (evs, res) \<Longrightarrow> list_all ordinary evs"
  by (cases res) simp_all

lemma parseBulkString_ok: "helper_ok (parseBulkString header rd)"
  by (auto simp: parseBulkString_def split: option.splits sum.splits dest: ReadFull_Inl)

lemma parseRDBBulkString_ok: "helper_ok (parseRDBBulkString rd)"
  by (auto simp: parseRDBBulkString_def Let_def split: option.splits sum.splits
      dest: ReadFull_Inl)

lemma parseArray_loop_ok:
  "parseArray_loop k lines rd = (evs, lines', res) \<Longrightarrow> helper_ok (evs, res)"
proof (induction k arbitrary: lines rd)
  case 0
  then show ?case by auto
next
  case (Suc k)
  from Suc.prems show ?case
    by (auto split: if_splits option.splits sum.splits
        dest!: Suc.IH ReadBytes_Inl ReadFull_Inl)
qed

lemma parseArray_end_ok: "helper_ok (evs, res) \<Longrightarrow> helper_ok (parseArray_end (evs, lines, res))"
  by (cases res) (simp_all add: MakeMultiBulkReply_def)

lemma parseArray_ok: "helper_ok (parseArray header rd)"
proof -
  have "helper_ok (parseArray_end (parseArray_loop k lines rd))" for k lines
  proof -
    obtain evs lines' res where l: "parseArray_loop k lines rd = (evs, lines', res)"
      by (cases "parseArray_loop k lines rd") auto
    from parseArray_loop_ok [OF l] show ?thesis
      unfolding l by (rule parseArray_end_ok)
  qed
  then show ?thesis
    by (auto simp: parseArray_def MakeEmptyMultiBulkReply_def split: option.splits)
qed

lemma parseBulkString_sends:
  "parseBulkString header rd = (evs, res) \<Longrightarrow> list_all ordinary evs"
  using parseBulkString_ok [of header rd] by (auto dest: helper_ok_sends)

lemma parseBulkString_panic:
  "parseBulkString header rd = (evs, Panicked p) \<Longrightarrow> header \<noteq> [] \<Longrightarrow> p = MakesliceLenOutOfRange"
  by (auto simp: parseBulkString_def split: if_splits option.splits sum.splits)

lemma parseRDBBulkString_sends:
  "parseRDBBulkString rd = (evs, res) \<Longrightarrow> list_all ordinary evs"
  using parseRDBBulkString_ok [of rd] by (auto dest: helper_ok_sends)

lemma parseRDBBulkString_panic:
  "parseRDBBulkString rd = (evs, Panicked p) \<Longrightarrow> p = MakesliceLenOutOfRange"
  by (auto simp: parseRDBBulkString_def Let_def split: if_splits option.splits sum.splits)

lemma parseArray_loop_panic:
  "parseArray_loop k lines rd = (evs, lines', Panicked p) \<Longrightarrow> p = MakesliceLenOutOfRange"
proof (induction k arbitrary: lines rd)
  case 0
  then show ?case by auto
next
  case (Suc k)
  from Suc.prems show ?case
    by (auto split: if_splits option.splits sum.splits dest!: Suc.IH)
qed

lemma parseArray_sends:
  "parseArray header rd = (evs, res) \<Longrightarrow> list_all ordinary evs"
  using parseArray_ok [of header rd] by (auto dest: helper_ok_sends)

lemma parseArray_panic:
  "parseArray header rd = (evs, Panicked p) \<Longrightarrow> header \<noteq> [] \<Longrightarrow> p = MakesliceLenOutOfRange"
  by (auto simp: parseArray_def split: if_splits option.splits
      elim!: parseArray_end.elims dest!: parseArray_loop_panic)

lemma terminated_Send: "ordinary (Send p) \<Longrightarrow> terminated es \<Longrightarrow> terminated (Send p # es)"
  by auto





lemma sends_no_LogError: "list_all ordinary evs \<Longrightarrow> LogError p \<notin> set evs"
  by (induction evs) auto




lemma after_call_Next: "after_call c = (evs, Some rd') \<Longrightarrow> c = (evs, Next rd')"
  by (cases c rule: after_call.cases) auto

lemma after_call_None:
  "after_call c = (evs, None) \<Longrightarrow>
     (\<exists>evs0 e. c = (evs0, Failed e) \<and> evs = evs0 @ [Send (errPayload e), Close])
   \<or> (\<exists>evs0 p. c = (evs0, Panicked p) \<and> evs = evs0 @ [LogError p])"
  by (cases c rule: after_call.cases) auto






lemma parse0_switch_panic:
  "parse0_switch line rd1 = (evs, nxt) \<Longrightarrow> line \<noteq> [] \<Longrightarrow> LogError p \<in> set evs \<Longrightarrow>
     p = MakesliceLenOutOfRange"
  unfolding parse0_switch_def
  apply (cases nxt)
   apply (auto simp: Let_def protocolError_def
      split: if_splits option.splits prod.splits
      dest!: after_call_None after_call_Next)
             apply (auto dest: parseBulkString_sends [THEN sends_no_LogError]
      parseRDBBulkString_sends [THEN sends_no_LogError]
      parseArray_sends [THEN sends_no_LogError]
      parseBulkString_panic parseRDBBulkString_panic parseArray_panic)
  done

lemma drop_last_two:
  assumes "2 \<le> length xs"
  shows "drop (length xs - 2) xs = [xs ! (length xs - 2), last xs]"
proof (cases xs rule: rev_cases)
  case Nil
  with assms show ?thesis by simp
next
  case (snoc ys b)
  show ?thesis
  proof (cases ys rule: rev_cases)
    case Nil
    with snoc assms show ?thesis by simp
  next
    case (snoc zs a)
    with \<open>xs = ys @ [b]\<close> show ?thesis by (simp add: nth_append)
  qed
qed

lemma TrimSuffix_line:
  assumes "ReadBytes LF rd = Inr (line0, rd1)"
    and "\<not> (length line0 \<le> 2 \<or> line0 ! (length line0 - 2) \<noteq> CR)"
  shows "TrimSuffix line0 CRLF = take (length line0 - 2) line0"
    and "1 \<le> length (TrimSuffix line0 CRLF)"
proof -
  have len: "length CRLF = 2" by (simp add: CRLF_def)
  from assms(1) have "last line0 = LF" by (auto dest: ReadBytes_last)
  with assms(2) have "drop (length line0 - 2) line0 = CRLF"
    by (simp add: drop_last_two CRLF_def)
  with assms(2) show t: "TrimSuffix line0 CRLF = take (length line0 - 2) line0"
    by (simp add: TrimSuffix_def len)
  from assms(2) have "3 \<le> length line0" by simp
  then show "1 \<le> length (TrimSuffix line0 CRLF)" unfolding t by simp
qed



lemma parse0_body_panic:
  assumes "parse0_body rd = (evs, nxt)" "LogError p \<in> set evs"
  shows "p = MakesliceLenOutOfRange"
proof (cases "ReadBytes LF rd")
  case (Inl err)
  with assms show ?thesis by (auto simp: parse0_body_def)
next
  case (Inr lr)
  obtain line0 rd1 where lr: "lr = (line0, rd1)" by (cases lr)
  show ?thesis
  proof (cases "length line0 \<le> 2 \<or> line0 ! (length line0 - 2) \<noteq> CR")
    case True
    with assms Inr lr show ?thesis by (auto simp: parse0_body_def)
  next
    case False
    with Inr lr have "1 \<le> length (TrimSuffix line0 CRLF)" by (intro TrimSuffix_line(2)) auto
    then have ne: "TrimSuffix line0 CRLF \<noteq> []" by auto
    from assms(1) Inr lr False
    have "parse0_switch (TrimSuffix line0 CRLF) rd1 = (evs, nxt)" by (simp add: parse0_body_def)
    from parse0_switch_panic [OF this ne assms(2)] show ?thesis .
  qed
qed


lemma parse0_panic: "LogError p \<in> set (parse0 rd) \<Longrightarrow> p = MakesliceLenOutOfRange"
proof (induction rd rule: parse0.induct)
  case (1 rd)
  obtain evs nxt where b: "parse0_body rd = (evs, nxt)" by force
  show ?case
  proof (cases nxt)
    case None
    with b "1.prems" show ?thesis by (auto simp: parse0_None dest: parse0_body_panic)
  next
    case (Some rd')
    with b "1.prems" have "LogError p \<in> set evs \<or> LogError p \<in> set (parse0 rd')"
      by (simp add: parse0_Some)
    then show ?thesis
    proof
      assume "LogError p \<in> set evs"
      with b show ?thesis by (rule parse0_body_panic)
    next
      assume "LogError p \<in> set (parse0 rd')"
      with b Some show ?thesis using "1.IH" by simp
    qed
  qed
qed

section \<open>The encoder\<close>

lemma length_formatUint: "length (formatUint n) = digits n"
  by (induction n rule: formatUint.induct) (subst formatUint.simps, subst digits.simps, simp)

lemma length_Itoa: "length (Itoa n) = digits n"
  by (simp add: Itoa_def FormatInt_def length_formatUint)

lemma write_loop_append:
  "write_loop args buf = buf @ concat (map (\<lambda>a. ToBytes (BulkReply a)) args)"
proof (induction args arbitrary: buf)
  case Nil
  show ?case by simp
next
  case (Cons a args)
  show ?case by (cases a) (simp_all add: Cons.IH nullBulkBytes_def)
qed

lemma bufLen_loop_sum:
  "bufLen_loop args n = n + sum_list (map elem_len args)"
proof (induction args arbitrary: n)
  case Nil
  show ?case by simp
next
  case (Cons a args)
  show ?case by (cases a) (simp_all add: Cons.IH elem_len_def length_Itoa)
qed

lemma length_Bulk_ToBytes: "length (ToBytes (BulkReply e)) = elem_len e"
  by (cases e) (simp_all add: elem_len_def nullBulkBytes_def CRLF_def length_Itoa)

lemma length_concat_Bulk:
  "length (concat (map (\<lambda>a. ToBytes (BulkReply a)) args)) = sum_list (map elem_len args)"
  by (induction args) (simp_all add: length_Bulk_ToBytes)

text \<open>
  Claim C5. A \<^verbatim>\<open>MultiBulk\<close> of any elements, present or absent, serialises to
  \<^verbatim>\<open>"*" + decimal(count) + CRLF\<close> followed by every element serialised as a
  \<^verbatim>\<open>Bulk\<close>, an absent element as \<^verbatim>\<open>"$-1\r\n"\<close>; the length of the result is
  \<^verbatim>\<open>len("*") + digits(count) + 2\<close> plus the sum of the spec's term over the elements,
  and it is the length the first pass of \<^verbatim>\<open>ToBytes\<close> computes for the buffer.
\<close>

theorem MultiBulk_ToBytes_layout:
  "ToBytes (MultiBulkReply elems) =
     ''*'' @ Itoa (length elems) @ CRLF @ concat (map (\<lambda>e. ToBytes (BulkReply e)) elems)
   \<and> ToBytes (BulkReply None) = ''$-1'' @ CRLF
   \<and> length (ToBytes (MultiBulkReply elems)) =
       length ''*'' + digits (length elems) + 2 + sum_list (map elem_len elems)
   \<and> MultiBulk_bufLen elems = length (ToBytes (MultiBulkReply elems))"
  by (simp add: MultiBulk_ToBytes_def MultiBulk_bufLen_def write_loop_append bufLen_loop_sum
        length_concat_Bulk length_Itoa nullBulkBytes_def CRLF_def)

theorem MultiBulk_ToBytes_layout_witness:
  "ToBytes (MultiBulkReply [Some ''foo'', None, Some ''bar'']) =
     ''*3'' @ CRLF @ ''$3'' @ CRLF @ ''foo'' @ CRLF @ ''$-1'' @ CRLF @ ''$3'' @ CRLF @ ''bar'' @ CRLF
   \<and> length (ToBytes (MultiBulkReply [Some ''foo'', None, Some ''bar''])) = 27"
  using MultiBulk_ToBytes_layout [of "[Some ''foo'', None, Some ''bar'']"]
  by (simp add: elem_len_def digits.simps Itoa_def FormatInt_def formatUint.simps digit_char_def
        nullBulkBytes_def CRLF_def)

text \<open>
  What \<^verbatim>\<open>Try2ErrorReply\<close> (the spec's \<^verbatim>\<open>toError\<close>) returns, for every implementation
  of the reply interface: the error "empty reply" when the reply serialises to no bytes,
  no error when the first serialised byte is not \<^verbatim>\<open>-\<close>, and otherwise an error whose
  text is \<^verbatim>\<open>str[1:]\<close>, everything behind that byte. For a \<^verbatim>\<open>StandardErrReply\<close> this
  is the status with the closing CRLF still on it.
\<close>

lemma Try2ErrorReply_cases:
  "(ToBytes r = [] \<longrightarrow> Try2ErrorReply r = Some (ErrorString ''empty reply''))
   \<and> (\<forall>t. ToBytes r = CHR ''-'' # t \<longrightarrow> Try2ErrorReply r = Some (ErrorString t))
   \<and> (ToBytes r \<noteq> [] \<and> hd (ToBytes r) \<noteq> CHR ''-'' \<longrightarrow> Try2ErrorReply r = None)"
  by (cases "ToBytes r") (auto simp: Try2ErrorReply_def Let_def)

lemma Try2ErrorReply_StandardErrReply:
  "Try2ErrorReply (StandardErrReply status) = Some (ErrorString (status @ CRLF))
   \<and> Try2ErrorReply (StandardErrReply status) \<noteq> Some (ErrorString status)"
  by (simp add: Try2ErrorReply_def CRLF_def)

text \<open>
  Claim C8, which the code does not meet. The empty reply and the replies that are no
  errors are treated as the claim says, but the error for an error reply does not carry
  the text of the reply: for \<^verbatim>\<open>Err("ERR x")\<close>, where the spec and the comment of the
  function give the text \<^verbatim>\<open>ERR x\<close>, the code returns the text \<^verbatim>\<open>ERR x\r\n\<close>.
\<close>

theorem Try2ErrorReply_keeps_CRLF:
  "ToBytes (StandardErrReply ''ERR x'') = ''-ERR x'' @ CRLF
   \<and> Try2ErrorReply (StandardErrReply ''ERR x'') = Some (ErrorString (''ERR x'' @ CRLF))
   \<and> Try2ErrorReply (StandardErrReply ''ERR x'') \<noteq> Some (ErrorString ''ERR x'')
   \<and> Try2ErrorReply (OtherReply []) = Some (ErrorString ''empty reply'')
   \<and> Try2ErrorReply (StatusReply ''OK'') = None"
  by (simp add: Try2ErrorReply_def CRLF_def)


section \<open>The helpers on an input given by its parts\<close>

lemma wrap64_id: "- (2 ^ 63) \<le> x \<Longrightarrow> x < 2 ^ 63 \<Longrightarrow> wrap64 x = x"
  by (simp add: wrap64_def)

lemma wrap64_over: "2 ^ 63 \<le> x \<Longrightarrow> x < 2 ^ 63 + 2 ^ 64 \<Longrightarrow> wrap64 x = x - 2 ^ 64"
proof -
  assume a: "2 ^ 63 \<le> x" "x < 2 ^ 63 + 2 ^ 64"
  have e: "x + 2 ^ 63 = (x - 2 ^ 63) + 2 ^ 64" by simp
  have "(x + 2 ^ 63) mod 2 ^ 64 = (x - 2 ^ 63) mod 2 ^ 64"
    by (subst e) (rule mod_add_self2)
  also from a have "\<dots> = x - 2 ^ 63" by simp
  finally show ?thesis by (simp add: wrap64_def)
qed

text \<open>A length too large for \<^verbatim>\<open>make\<close>, whether or not the sum \<^verbatim>\<open>strLen+2\<close> wraps.\<close>

lemma make_len_too_long:
  assumes "n < 2 ^ 63" "maxAlloc < n + 2"
  shows "make_len (wrap64 (n + 2)) = None"
proof (cases "n + 2 < 2 ^ 63")
  case True
  with assms have "wrap64 (n + 2) = n + 2" by (simp add: wrap64_id maxAlloc_def)
  with assms show ?thesis by (simp add: make_len_def)
next
  case False
  with assms have "wrap64 (n + 2) = n + 2 - 2 ^ 64" by (intro wrap64_over) simp_all
  with assms show ?thesis by (simp add: make_len_def)
qed

lemma ParseInt_range: "ParseInt s 64 = Some n \<Longrightarrow> - (2 ^ 63) \<le> n \<and> n < 2 ^ 63"
  by (auto simp: ParseInt_def Let_def split: if_splits option.splits)

lemma parse0_line:
  "LF \<notin> set l \<Longrightarrow> l \<noteq> [] \<Longrightarrow> parse0_switch l rest = (evs, Some rest') \<Longrightarrow>
     parse0 (l @ CRLF @ rest) = evs @ parse0 rest'"
  by (rule parse0_Some) (simp add: parse0_body_line)

lemma parse0_line_end:
  "LF \<notin> set l \<Longrightarrow> l \<noteq> [] \<Longrightarrow> parse0_switch l rest = (evs, None) \<Longrightarrow>
     parse0 (l @ CRLF @ rest) = evs"
  by (rule parse0_None) (simp add: parse0_body_line)

lemma parseBulkString_null:
  "ParseInt h 64 = Some (- 1) \<Longrightarrow>
   parseBulkString (CHR ''$'' # h) rest = ([Send (dataPayload (BulkReply None))], Next rest)"
  by (simp add: parseBulkString_def MakeNullBulkReply_def)

lemma parseBulkString_illegal:
  "ParseInt h 64 = None \<or> (\<exists>n. ParseInt h 64 = Some n \<and> n < - 1) \<Longrightarrow>
   parseBulkString (CHR ''$'' # h) rest =
     (protocolError (''illegal bulk string header: '' @ CHR ''$'' # h), Next rest)"
  by (auto simp: parseBulkString_def)

lemma parseBulkString_body:
  assumes "ParseInt h 64 = Some n" "0 \<le> n" "n + 2 \<le> maxAlloc"
    "length payload = nat n" "length trailer = 2"
  shows "parseBulkString (CHR ''$'' # h) (payload @ trailer @ rest) =
     ([Send (dataPayload (BulkReply (Some payload)))], Next rest)"
proof -
  from assms have w: "wrap64 (n + 2) = n + 2" by (simp add: wrap64_id maxAlloc_def)
  from assms have m: "make_len (n + 2) = Some (length (payload @ trailer))"
    by (simp add: make_len_def nat_add_distrib)
  have r: "ReadFull ((payload @ trailer) @ rest) (length (payload @ trailer)) = Inr (payload @ trailer, rest)"
    by (rule ReadFull_append) simp
  from assms show ?thesis
    using r by (simp add: parseBulkString_def w m slice_def MakeBulkReply_def)
qed

lemma parseBulkString_too_long:
  assumes "ParseInt h 64 = Some n" "maxAlloc < n + 2"
  shows "parseBulkString (CHR ''$'' # h) rest = ([], Panicked MakesliceLenOutOfRange)"
proof -
  from assms(1) have "n < 2 ^ 63" by (auto dest: ParseInt_range)
  from make_len_too_long [OF this assms(2)] assms show ?thesis
    by (simp add: parseBulkString_def maxAlloc_def)
qed

lemmas ParseInt_eval = ParseInt_def ParseUint_def digit_val_def Let_def

lemma parseDigits_chars:
  "parseDigits s a = Some m \<Longrightarrow> c \<in> set s \<Longrightarrow> digit_val c \<noteq> None"
  by (induction s arbitrary: a) (auto split: option.splits)

lemma ParseInt_no_LF:
  assumes "ParseInt s b = Some n"
  shows "LF \<notin> set s"
proof -
  from assms have ne: "s \<noteq> []" by (auto simp: ParseInt_def)
  define s1 where "s1 = (if hd s = CHR ''+'' \<or> hd s = CHR ''-'' then tl s else s)"
  from assms ne obtain un where "ParseUint s1 = Some un"
    by (auto simp: ParseInt_def Let_def s1_def split: option.splits if_splits)
  then have "parseDigits s1 0 = Some un" by (auto simp: ParseUint_def split: if_splits)
  moreover have "digit_val LF = None" by (simp add: digit_val_def LF_def)
  ultimately have "LF \<notin> set s1" using parseDigits_chars by force
  moreover have "CHR ''+'' \<noteq> LF" "CHR ''-'' \<noteq> LF" by (simp_all add: LF_def)
  ultimately show ?thesis using ne
    by (cases s) (auto simp: s1_def split: if_splits)
qed

lemma parseRDBBulkString_body:
  assumes "c \<noteq> LF" "ParseInt ds 64 = Some n" "0 < n" "n \<le> maxAlloc" "length body = nat n"
  shows "parseRDBBulkString (c # ds @ CRLF @ body @ rest) =
     ([Send (dataPayload (BulkReply (Some body)))], Next rest)"
proof -
  from assms have "LF \<notin> set (c # ds)" by (auto dest: ParseInt_no_LF)
  from ReadBytes_CRLF [OF this]
  have r: "ReadBytes LF (c # ds @ CRLF @ body @ rest) = Inr (c # ds @ CRLF, body @ rest)" by simp
  have t: "TrimSuffix (c # ds @ CRLF) CRLF = c # ds"
    using TrimSuffix_CRLF [of "c # ds"] by simp
  from assms have m: "make_len n = Some (nat n)" by (simp add: make_len_def)
  from assms have f: "ReadFull (body @ rest) (nat n) = Inr (body, rest)"
    by (intro ReadFull_append) simp
  from assms show ?thesis
    by (simp add: parseRDBBulkString_def r t m f MakeBulkReply_def del: ReadBytes.simps)
qed

lemma parseRDBBulkString_illegal:
  assumes "c \<noteq> LF" "LF \<notin> set ds"
    "ParseInt ds 64 = None \<or> (\<exists>n. ParseInt ds 64 = Some n \<and> n \<le> 0)"
  shows "parseRDBBulkString (c # ds @ CRLF @ rest) =
     ([], Failed (ErrorString (''illegal bulk header'' @ c # ds)))"
proof -
  from assms have "LF \<notin> set (c # ds)" by auto
  from ReadBytes_CRLF [OF this]
  have r: "ReadBytes LF (c # ds @ CRLF @ rest) = Inr (c # ds @ CRLF, rest)" by simp
  have t: "TrimSuffix (c # ds @ CRLF) CRLF = c # ds"
    using TrimSuffix_CRLF [of "c # ds"] by simp
  from assms(3) show ?thesis
    by (auto simp: parseRDBBulkString_def r t simp del: ReadBytes.simps)
qed

lemma parseRDBBulkString_too_long:
  assumes "c \<noteq> LF" "ParseInt ds 64 = Some n" "maxAlloc < n"
  shows "parseRDBBulkString (c # ds @ CRLF @ rest) = ([], Panicked MakesliceLenOutOfRange)"
proof -
  from assms have "LF \<notin> set (c # ds)" by (auto dest: ParseInt_no_LF)
  from ReadBytes_CRLF [OF this]
  have r: "ReadBytes LF (c # ds @ CRLF @ rest) = Inr (c # ds @ CRLF, rest)" by simp
  have t: "TrimSuffix (c # ds @ CRLF) CRLF = c # ds"
    using TrimSuffix_CRLF [of "c # ds"] by simp
  from assms show ?thesis
    by (simp add: parseRDBBulkString_def r t make_len_def maxAlloc_def del: ReadBytes.simps)
qed

lemma parse0_switch_FULLRESYNC:
  "HasPrefix content ''FULLRESYNC'' \<Longrightarrow>
   parse0_switch (CHR ''+'' # content) rd =
     (case after_call (parseRDBBulkString rd) of
        (evs, nxt) \<Rightarrow> (Send (dataPayload (StatusReply content)) # evs, nxt))"
  by (simp add: parse0_switch_def MakeStatusReply_def)

lemma parse0_status:
  assumes "LF \<notin> set content" "\<not> HasPrefix content ''FULLRESYNC''"
  shows "parse0 (CHR ''+'' # content @ CRLF @ rest) =
           Send (dataPayload (StatusReply content)) # parse0 rest"
proof -
  have l: "LF \<notin> set (CHR ''+'' # content)" "CHR ''+'' # content \<noteq> []"
    using assms(1) by (simp_all add: LF_def)
  from assms(2) have "parse0_switch (CHR ''+'' # content) rest =
      ([Send (dataPayload (StatusReply content))], Some rest)"
    by (simp add: parse0_switch_def MakeStatusReply_def)
  from parse0_line [OF l this] show ?thesis by simp
qed

section \<open>Arrays and single frames\<close>

lemma ParseInt_nonempty: "ParseInt s b = Some n \<Longrightarrow> s \<noteq> []"
  by (auto simp: ParseInt_def)

lemma header_line:
  assumes "ParseInt ds 64 = Some n" and "line = CHR ''$'' # ds @ CRLF"
  shows "ReadBytes LF (line @ rest) = Inr (line, rest)"
    and "\<not> (length line < 4 \<or> line ! (length line - 2) \<noteq> CR \<or> line ! 0 \<noteq> CHR ''$'')"
    and "slice line (Suc 0) (length line - 2) = ds"
proof -
  from assms(1) have "LF \<notin> set (CHR ''$'' # ds)" by (auto simp: LF_def dest: ParseInt_no_LF)
  from ReadBytes_CRLF [OF this]
  show "ReadBytes LF (line @ rest) = Inr (line, rest)" by (simp add: assms(2))
  from assms(1) have "ds \<noteq> []" by (rule ParseInt_nonempty)
  then obtain d ds' where "ds = d # ds'" by (cases ds) auto
  then show "\<not> (length line < 4 \<or> line ! (length line - 2) \<noteq> CR \<or> line ! 0 \<noteq> CHR ''$'')"
    by (simp add: assms(2) CRLF_def nth_append)
  show "slice line (Suc 0) (length line - 2) = ds"
    by (simp add: assms(2) slice_def CRLF_def)
qed

lemma parseArray_loop_elem:
  assumes "elem_ok e"
  shows "parseArray_loop (Suc k) lines (elem_wire e @ rest) =
           parseArray_loop k (lines @ [Some (elem_value e)]) rest"
proof (cases e)
  case (Elem ds b t)
  with assms have p: "ParseInt ds 64 = Some (int (length b))"
    and r: "int (length b) + 2 \<le> maxAlloc" and t: "length t = 2" by simp_all
  define line where "line = CHR ''$'' # ds @ CRLF"
  note h = header_line [OF p line_def]
  from r have w: "wrap64 (int (length b) + 2) = int (length b) + 2"
    by (simp add: wrap64_id maxAlloc_def)
  from t r have m: "make_len (int (length b) + 2) = Some (length (b @ t))"
    by (simp add: make_len_def nat_add_distrib)
  have f: "ReadFull ((b @ t) @ rest) (length (b @ t)) = Inr (b @ t, rest)"
    by (rule ReadFull_append) simp
  have sb: "slice (b @ t) 0 (length b) = b" by (simp add: slice_def)
  have "parseArray_loop (Suc k) lines (line @ (b @ t) @ rest) =
          parseArray_loop k (lines @ [Some b]) rest"
    using h(2) f by (simp add: h(1) h(3) p w m sb)
  with Elem show ?thesis by (simp add: line_def)
next
  case (NullElem ds)
  with assms have p: "ParseInt ds 64 = Some (- 1)" by simp
  define line where "line = CHR ''$'' # ds @ CRLF"
  note h = header_line [OF p line_def]
  have "parseArray_loop (Suc k) lines (line @ rest) =
          parseArray_loop k (lines @ [Some []]) rest"
    using h(2) by (simp add: h(1) h(3) p)
  with NullElem show ?thesis by (simp add: line_def)
qed

lemma parseArray_loop_elems_more:
  "list_all elem_ok es \<Longrightarrow>
   parseArray_loop (length es + k) lines (concat (map elem_wire es) @ rest) =
     parseArray_loop k (lines @ map (\<lambda>e. Some (elem_value e)) es) rest"
proof (induction es arbitrary: lines)
  case Nil
  show ?case by simp
next
  case (Cons e es)
  then have e: "elem_ok e" and es: "list_all elem_ok es" by simp_all
  have "parseArray_loop (length (e # es) + k) lines (concat (map elem_wire (e # es)) @ rest) =
        parseArray_loop (Suc (length es + k)) lines (elem_wire e @ concat (map elem_wire es) @ rest)"
    by simp
  also have "\<dots> = parseArray_loop (length es + k) (lines @ [Some (elem_value e)])
                    (concat (map elem_wire es) @ rest)"
    by (rule parseArray_loop_elem [OF e])
  also have "\<dots> = parseArray_loop k ((lines @ [Some (elem_value e)]) @ map (\<lambda>e. Some (elem_value e)) es) rest"
    by (rule Cons.IH [OF es])
  finally show ?case by simp
qed

text \<open>A nested line that fails the first check of the loop.\<close>

lemma parseArray_loop_bad_line:
  assumes "LF \<notin> set l"
    and "length (l @ [LF]) < 4 \<or> (l @ [LF]) ! (length (l @ [LF]) - 2) \<noteq> CR \<or> (l @ [LF]) ! 0 \<noteq> CHR ''$''"
  shows "parseArray_loop (Suc k) lines (l @ LF # rest) =
           (protocolError (''illegal bulk string header '' @ l @ [LF]), lines, Next rest)"
proof -
  define line where "line = l @ [LF]"
  from assms(1) have r: "ReadBytes LF (l @ LF # rest) = Inr (line, rest)"
    by (simp add: ReadBytes_line line_def)
  from assms(2) have g: "length line < 4 \<or> line ! (length line - 2) \<noteq> CR \<or> line ! 0 \<noteq> CHR ''$''"
    by (simp only: line_def)
  show ?thesis
    apply (subst parseArray_loop.simps)
    apply (subst r)
    using g apply (auto simp: line_def)
    done
qed

lemma parse0_array_bad_line:
  assumes "list_all elem_ok es" "ParseInt hs 32 = Some n" "int (length es) < n"
    and "LF \<notin> set l"
    and "length (l @ [LF]) < 4 \<or> (l @ [LF]) ! (length (l @ [LF]) - 2) \<noteq> CR \<or> (l @ [LF]) ! 0 \<noteq> CHR ''$''"
  shows "parse0 (CHR ''*'' # hs @ CRLF @ concat (map elem_wire es) @ l @ LF # rest) =
     protocolError (''illegal bulk string header '' @ l @ [LF]) @
     Send (dataPayload (MultiBulkReply
         (replicate (nat n) None @ map (\<lambda>e. Some (elem_value e)) es))) # parse0 rest"
proof -
  from assms(2) have l: "LF \<notin> set (CHR ''*'' # hs)" "CHR ''*'' # hs \<noteq> []"
    by (auto simp: LF_def dest: ParseInt_no_LF)
  from assms(3) obtain k where k: "nat n = length es + Suc k"
    by (metis add_Suc_right less_imp_Suc_add zless_nat_eq_int_zless)
  have "parseArray_loop (nat n) (replicate (nat n) None)
          (concat (map elem_wire es) @ l @ LF # rest) =
        (protocolError (''illegal bulk string header '' @ l @ [LF]),
         replicate (nat n) None @ map (\<lambda>e. Some (elem_value e)) es, Next rest)"
    unfolding k
    by (simp only: parseArray_loop_elems_more [OF assms(1)] parseArray_loop_bad_line [OF assms(4,5)])
  with assms(2,3) have "parseArray (CHR ''*'' # hs) (concat (map elem_wire es) @ l @ LF # rest) =
     (protocolError (''illegal bulk string header '' @ l @ [LF]) @
      [Send (dataPayload (MultiBulkReply
         (replicate (nat n) None @ map (\<lambda>e. Some (elem_value e)) es)))], Next rest)"
    by (simp add: parseArray_def MakeMultiBulkReply_def)
  then have "parse0_switch (CHR ''*'' # hs) (concat (map elem_wire es) @ l @ LF # rest) =
     (protocolError (''illegal bulk string header '' @ l @ [LF]) @
      [Send (dataPayload (MultiBulkReply
         (replicate (nat n) None @ map (\<lambda>e. Some (elem_value e)) es)))], Some rest)"
    by (simp add: parse0_switch_def)
  from parse0_line [OF l this] show ?thesis by simp
qed

lemma parseArray_elems:
  assumes "list_all elem_ok es" "es \<noteq> []" "ParseInt hs 32 = Some (int (length es))"
  shows "parseArray (CHR ''*'' # hs) (concat (map elem_wire es) @ rest) =
     ([Send (dataPayload (MultiBulkReply
         (replicate (length es) None @ map (\<lambda>e. Some (elem_value e)) es)))], Next rest)"
  using assms
  using parseArray_loop_elems_more [OF assms(1), of 0 "replicate (length es) None" rest]
  by (simp add: parseArray_def MakeMultiBulkReply_def)

lemma parse0_array_elems:
  assumes "list_all elem_ok es" "es \<noteq> []" "ParseInt hs 32 = Some (int (length es))"
  shows "parse0 (CHR ''*'' # hs @ CRLF @ concat (map elem_wire es) @ rest) =
     Send (dataPayload (MultiBulkReply
         (replicate (length es) None @ map (\<lambda>e. Some (elem_value e)) es))) # parse0 rest"
proof -
  from assms(3) have l: "LF \<notin> set (CHR ''*'' # hs)" "CHR ''*'' # hs \<noteq> []"
    by (auto simp: LF_def dest: ParseInt_no_LF)
  have "parse0_switch (CHR ''*'' # hs) (concat (map elem_wire es) @ rest) =
     ([Send (dataPayload (MultiBulkReply
         (replicate (length es) None @ map (\<lambda>e. Some (elem_value e)) es)))], Some rest)"
    by (simp add: parse0_switch_def parseArray_elems [OF assms])
  from parse0_line [OF l this] show ?thesis by simp
qed




lemma parse0_bulk_illegal:
  assumes "LF \<notin> set h" "ParseInt h 64 = None \<or> (\<exists>n. ParseInt h 64 = Some n \<and> n < - 1)"
  shows "parse0 (CHR ''$'' # h @ CRLF @ rest) =
           protocolError (''illegal bulk string header: '' @ CHR ''$'' # h) @ parse0 rest"
proof -
  from assms(1) have l: "LF \<notin> set (CHR ''$'' # h)" "CHR ''$'' # h \<noteq> []"
    by (simp_all add: LF_def)
  from assms(2) have "parse0_switch (CHR ''$'' # h) rest =
      (protocolError (''illegal bulk string header: '' @ CHR ''$'' # h), Some rest)"
    by (simp add: parse0_switch_def parseBulkString_illegal)
  from parse0_line [OF l this] show ?thesis by simp
qed

lemma parse0_bulk_too_long:
  assumes "ParseInt h 64 = Some n" "maxAlloc < n + 2"
  shows "parse0 (CHR ''$'' # h @ CRLF @ rest) = [LogError MakesliceLenOutOfRange]"
proof -
  from assms(1) have l: "LF \<notin> set (CHR ''$'' # h)" "CHR ''$'' # h \<noteq> []"
    by (auto simp: LF_def dest: ParseInt_no_LF)
  have "parse0_switch (CHR ''$'' # h) rest = ([LogError MakesliceLenOutOfRange], None)"
    by (simp add: parse0_switch_def parseBulkString_too_long [OF assms])
  from parse0_line_end [OF l this] show ?thesis by simp
qed




lemma parse0_bulk_null:
  assumes "ParseInt h 64 = Some (- 1)"
  shows "parse0 (CHR ''$'' # h @ CRLF @ rest) = Send (dataPayload (BulkReply None)) # parse0 rest"
proof -
  from assms have l: "LF \<notin> set (CHR ''$'' # h)" "CHR ''$'' # h \<noteq> []"
    by (auto simp: LF_def dest: ParseInt_no_LF)
  from assms have "parse0_switch (CHR ''$'' # h) rest = ([Send (dataPayload (BulkReply None))], Some rest)"
    by (simp add: parse0_switch_def parseBulkString_null)
  from parse0_line [OF l this] show ?thesis by simp
qed

lemma parse0_bulk_body:
  assumes "ParseInt h 64 = Some n" "0 \<le> n" "n + 2 \<le> maxAlloc"
    "length payload = nat n" "length trailer = 2"
  shows "parse0 (CHR ''$'' # h @ CRLF @ payload @ trailer @ rest) =
           Send (dataPayload (BulkReply (Some payload))) # parse0 rest"
proof -
  from assms(1) have l: "LF \<notin> set (CHR ''$'' # h)" "CHR ''$'' # h \<noteq> []"
    by (auto simp: LF_def dest: ParseInt_no_LF)
  have "parse0_switch (CHR ''$'' # h) (payload @ trailer @ rest) =
      ([Send (dataPayload (BulkReply (Some payload)))], Some rest)"
    by (simp add: parse0_switch_def parseBulkString_body [OF assms])
  from parse0_line [OF l this] show ?thesis by simp
qed


section \<open>The decoder\<close>

text \<open>
  Claim C10. Every line that reaches the switch of the decode loop is non-empty. A line
  the reader returns that has at most 2 bytes, or whose second-to-last byte is not CR, is
  skipped: the iteration sends nothing and goes on behind the line. Any other line loses
  exactly its two terminator bytes and keeps at least one byte, and it is this line the
  switch sees; so on no input does the decoder log an index-out-of-range panic.
\<close>

theorem parse0_switch_line_nonempty:
  "(ReadBytes LF rd = Inr (line0, rd1)
      \<and> \<not> (length line0 \<le> 2 \<or> line0 ! (length line0 - 2) \<noteq> CR) \<longrightarrow>
        TrimSuffix line0 CRLF = take (length line0 - 2) line0
      \<and> 1 \<le> length (TrimSuffix line0 CRLF)
      \<and> parse0_body rd = parse0_switch (TrimSuffix line0 CRLF) rd1)
   \<and> (ReadBytes LF rd = Inr (line0, rd1)
      \<and> (length line0 \<le> 2 \<or> line0 ! (length line0 - 2) \<noteq> CR) \<longrightarrow>
        parse0_body rd = ([], Some rd1))
   \<and> LogError IndexOutOfRange \<notin> set (parse0 rd')"
proof (intro conjI impI)
  assume a: "ReadBytes LF rd = Inr (line0, rd1)
    \<and> \<not> (length line0 \<le> 2 \<or> line0 ! (length line0 - 2) \<noteq> CR)"
  then show "TrimSuffix line0 CRLF = take (length line0 - 2) line0"
    by (intro TrimSuffix_line(1)) auto
  from a show "1 \<le> length (TrimSuffix line0 CRLF)"
    by (intro TrimSuffix_line(2)) auto
  from a show "parse0_body rd = parse0_switch (TrimSuffix line0 CRLF) rd1"
    by (simp add: parse0_body_def)
next
  assume "ReadBytes LF rd = Inr (line0, rd1)
    \<and> (length line0 \<le> 2 \<or> line0 ! (length line0 - 2) \<noteq> CR)"
  then show "parse0_body rd = ([], Some rd1)"
    by (auto simp: parse0_body_def)
next
  show "LogError IndexOutOfRange \<notin> set (parse0 rd')"
    using parse0_panic [of IndexOutOfRange rd'] by auto
qed

theorem parse0_switch_line_nonempty_witness:
  "ReadBytes LF (''+OK'' @ CRLF) = Inr (''+OK'' @ CRLF, [])
   \<and> \<not> (length (''+OK'' @ CRLF) \<le> 2 \<or> (''+OK'' @ CRLF) ! (length (''+OK'' @ CRLF) - 2) \<noteq> CR)
   \<and> TrimSuffix (''+OK'' @ CRLF) CRLF = ''+OK''
   \<and> parse0_body (''+OK'' @ CRLF) = parse0_switch ''+OK'' []
   \<and> ReadBytes LF CRLF = Inr (CRLF, [])
   \<and> length CRLF \<le> 2
   \<and> parse0_body CRLF = ([], Some [])
   \<and> LogError IndexOutOfRange \<notin> set (parse0 (''+OK'' @ CRLF))"
  using parse0_switch_line_nonempty [of "''+OK'' @ CRLF" "''+OK'' @ CRLF" "[]" "''+OK'' @ CRLF"]
    parse0_switch_line_nonempty [of CRLF CRLF "[]" "[]"]
  by (simp add: CRLF_def CR_def LF_def)



text \<open>
  Claim C7, as amended. A top-level bulk header \<^verbatim>\<open>$n\<close>, \<open>h\<close> being the bytes after the
  \<^verbatim>\<open>$\<close>. If \<open>h\<close> parses to -1 the decoder emits the absent bulk and goes on behind the
  header. If \<open>h\<close> does not parse or parses to less than -1 it emits one protocol error
  and goes on behind the header. If \<open>h\<close> parses to \<open>n \<ge> 0\<close> with \<open>n + 2\<close> at most
  \<^verbatim>\<open>maxAlloc\<close> and \<open>n + 2\<close> bytes follow, it reads exactly these, drops the last two,
  whatever they are, emits the bulk of the first \<open>n\<close> and goes on behind them. If
  \<open>n + 2\<close> is more than \<^verbatim>\<open>maxAlloc\<close> the decoder panics in \<^verbatim>\<open>make\<close>: it emits
  nothing, the panic is logged and the run ends with the channel open. The absent bulk and
  the empty bulk are different values.
\<close>

theorem parse0_bulk_header:
  assumes "LF \<notin> set h"
  shows
  "(ParseInt h 64 = Some (- 1) \<longrightarrow>
      parse0 (CHR ''$'' # h @ CRLF @ rest) = Send (dataPayload (BulkReply None)) # parse0 rest)
   \<and> (ParseInt h 64 = None \<or> (\<exists>n. ParseInt h 64 = Some n \<and> n < - 1) \<longrightarrow>
      parse0 (CHR ''$'' # h @ CRLF @ rest) =
        protocolError (''illegal bulk string header: '' @ CHR ''$'' # h) @ parse0 rest)
   \<and> (\<forall>n payload trailer.
        ParseInt h 64 = Some n \<and> 0 \<le> n \<and> n + 2 \<le> maxAlloc
        \<and> length payload = nat n \<and> length trailer = 2 \<longrightarrow>
      parse0 (CHR ''$'' # h @ CRLF @ payload @ trailer @ rest) =
        Send (dataPayload (BulkReply (Some payload))) # parse0 rest)
   \<and> (\<forall>n. ParseInt h 64 = Some n \<and> maxAlloc < n + 2 \<longrightarrow>
      parse0 (CHR ''$'' # h @ CRLF @ rest) = [LogError MakesliceLenOutOfRange])
   \<and> BulkReply None \<noteq> BulkReply (Some [])"
proof (intro conjI impI allI)
  assume "ParseInt h 64 = Some (- 1)"
  then show "parse0 (CHR ''$'' # h @ CRLF @ rest) = Send (dataPayload (BulkReply None)) # parse0 rest"
    by (rule parse0_bulk_null)
next
  assume "ParseInt h 64 = None \<or> (\<exists>n. ParseInt h 64 = Some n \<and> n < - 1)"
  with assms show "parse0 (CHR ''$'' # h @ CRLF @ rest) =
      protocolError (''illegal bulk string header: '' @ CHR ''$'' # h) @ parse0 rest"
    by (rule parse0_bulk_illegal)
next
  fix n and payload trailer :: bytes
  assume "ParseInt h 64 = Some n \<and> 0 \<le> n \<and> n + 2 \<le> maxAlloc
      \<and> length payload = nat n \<and> length trailer = 2"
  then show "parse0 (CHR ''$'' # h @ CRLF @ payload @ trailer @ rest) =
      Send (dataPayload (BulkReply (Some payload))) # parse0 rest"
    by (intro parse0_bulk_body) auto
next
  fix n
  assume "ParseInt h 64 = Some n \<and> maxAlloc < n + 2"
  then show "parse0 (CHR ''$'' # h @ CRLF @ rest) = [LogError MakesliceLenOutOfRange]"
    by (intro parse0_bulk_too_long) auto
next
  show "BulkReply None \<noteq> BulkReply (Some [])" by simp
qed

theorem parse0_bulk_header_witness:
  "LF \<notin> set ''-1'' \<and> ParseInt ''-1'' 64 = Some (- 1)
   \<and> parse0 (''$-1'' @ CRLF) = [Send (dataPayload (BulkReply None)), Send (errPayload EOF), Close]
   \<and> LF \<notin> set ''0'' \<and> ParseInt ''0'' 64 = Some 0
   \<and> parse0 (''$0'' @ CRLF @ CRLF) =
       [Send (dataPayload (BulkReply (Some []))), Send (errPayload EOF), Close]
   \<and> LF \<notin> set ''5'' \<and> ParseInt ''5'' 64 = Some 5 \<and> (5::int) + 2 \<le> maxAlloc
   \<and> parse0 (''$5'' @ CRLF @ ''hello'' @ CRLF) =
       [Send (dataPayload (BulkReply (Some ''hello''))), Send (errPayload EOF), Close]
   \<and> LF \<notin> set ''-2'' \<and> ParseInt ''-2'' 64 = Some (- 2)
   \<and> parse0 (''$-2'' @ CRLF) =
       protocolError ''illegal bulk string header: $-2'' @ [Send (errPayload EOF), Close]
   \<and> LF \<notin> set ''abc'' \<and> ParseInt ''abc'' 64 = None
   \<and> parse0 (''$abc'' @ CRLF @ ''+OK'' @ CRLF) =
       protocolError ''illegal bulk string header: $abc'' @ parse0 (''+OK'' @ CRLF)
   \<and> LF \<notin> set ''281474976710655'' \<and> ParseInt ''281474976710655'' 64 = Some 281474976710655
   \<and> maxAlloc < 281474976710655 + 2
   \<and> parse0 (''$281474976710655'' @ CRLF @ ''hello'' @ CRLF) = [LogError MakesliceLenOutOfRange]"
  using parse0_bulk_header [of "''-1''" "[]"]
    parse0_bulk_header [of "''0''" "[]", THEN conjunct2, THEN conjunct2, THEN conjunct1,
      rule_format, of 0 "[]" CRLF]
    parse0_bulk_header [of "''5''" "[]", THEN conjunct2, THEN conjunct2, THEN conjunct1,
      rule_format, of 5 "''hello''" CRLF]
    parse0_bulk_header [of "''-2''" "[]"]
    parse0_bulk_header [of "''abc''" "''+OK'' @ CRLF"]
    parse0_bulk_header [of "''281474976710655''" "''hello'' @ CRLF", THEN conjunct2,
      THEN conjunct2, THEN conjunct2, THEN conjunct1, rule_format, of 281474976710655]
  by (simp add: ParseInt_eval LF_def parse0_Nil CRLF_def maxAlloc_def)

text \<open>
  The claim as the spec states it has the decoder read \<open>n + 2\<close> bytes and emit a bulk for
  every length from 0 on. For the header \<^verbatim>\<open>$9223372036854775807\<close>, a length that
  \<^verbatim>\<open>ParseInt\<close> accepts, it reads no byte and emits neither a bulk nor an error: the sum
  \<^verbatim>\<open>strLen+2\<close> wraps to a negative number and \<^verbatim>\<open>make\<close> panics.
\<close>

theorem parse0_bulk_header_counterexample:
  "ParseInt ''9223372036854775807'' 64 = Some 9223372036854775807
   \<and> parse0 (''$9223372036854775807'' @ CRLF @ ''hello'' @ CRLF) =
       [LogError MakesliceLenOutOfRange]"
  using parse0_bulk_too_long [of "''9223372036854775807''" 9223372036854775807 "''hello'' @ CRLF"]
  by (simp add: ParseInt_eval maxAlloc_def)

text \<open>
  Claim C9, as amended. In the raw-bulk sub-mode of the replication handshake the first
  byte of the header line is never looked at. Whatever byte \<open>c\<close> a line starts with, when
  the bytes after it parse as a positive integer \<open>n\<close> that is at most \<^verbatim>\<open>maxAlloc\<close> and
  \<open>n\<close> bytes follow, the helper emits the bulk of these \<open>n\<close> bytes and leaves the reader
  right behind them, exactly as it does for the header that starts with \<^verbatim>\<open>$\<close>. When
  \<open>n\<close> is more than \<^verbatim>\<open>maxAlloc\<close> the helper panics in \<^verbatim>\<open>make\<close>, again whatever the
  first byte is.
\<close>

theorem parseRDBBulkString_lead_byte_unchecked:
  assumes "c \<noteq> LF" "ParseInt ds 64 = Some n" "0 < n"
  shows "(\<forall>body. n \<le> maxAlloc \<and> length body = nat n \<longrightarrow>
           parseRDBBulkString (c # ds @ CRLF @ body @ rest) =
             ([Send (dataPayload (BulkReply (Some body)))], Next rest)
         \<and> parseRDBBulkString (CHR ''$'' # ds @ CRLF @ body @ rest) =
             ([Send (dataPayload (BulkReply (Some body)))], Next rest))
       \<and> (maxAlloc < n \<longrightarrow>
           parseRDBBulkString (c # ds @ CRLF @ rest) = ([], Panicked MakesliceLenOutOfRange)
         \<and> parseRDBBulkString (CHR ''$'' # ds @ CRLF @ rest) =
             ([], Panicked MakesliceLenOutOfRange))"
proof (intro conjI impI allI)
  have d: "CHR ''$'' \<noteq> LF" by (simp add: LF_def)
  fix body :: bytes
  assume a: "n \<le> maxAlloc \<and> length body = nat n"
  with assms show "parseRDBBulkString (c # ds @ CRLF @ body @ rest) =
      ([Send (dataPayload (BulkReply (Some body)))], Next rest)"
    by (intro parseRDBBulkString_body) auto
  from a assms d show "parseRDBBulkString (CHR ''$'' # ds @ CRLF @ body @ rest) =
      ([Send (dataPayload (BulkReply (Some body)))], Next rest)"
    by (intro parseRDBBulkString_body) auto
next
  have d: "CHR ''$'' \<noteq> LF" by (simp add: LF_def)
  assume a: "maxAlloc < n"
  with assms show "parseRDBBulkString (c # ds @ CRLF @ rest) = ([], Panicked MakesliceLenOutOfRange)"
    by (intro parseRDBBulkString_too_long) auto
  from a assms d show "parseRDBBulkString (CHR ''$'' # ds @ CRLF @ rest) =
      ([], Panicked MakesliceLenOutOfRange)"
    by (intro parseRDBBulkString_too_long) auto
qed

theorem parseRDBBulkString_lead_byte_unchecked_witness:
  "CHR ''#'' \<noteq> LF \<and> ParseInt ''5'' 64 = Some 5 \<and> (0::int) < 5 \<and> (5::int) \<le> maxAlloc
   \<and> length ''HELLO'' = nat 5
   \<and> parseRDBBulkString (''#5'' @ CRLF @ ''HELLO'') =
        ([Send (dataPayload (BulkReply (Some ''HELLO'')))], Next [])
   \<and> parseRDBBulkString (''$5'' @ CRLF @ ''HELLO'') =
        ([Send (dataPayload (BulkReply (Some ''HELLO'')))], Next [])
   \<and> ParseInt ''281474976710657'' 64 = Some 281474976710657 \<and> maxAlloc < 281474976710657
   \<and> parseRDBBulkString (''#281474976710657'' @ CRLF @ ''HELLO'') =
        ([], Panicked MakesliceLenOutOfRange)"
  using parseRDBBulkString_lead_byte_unchecked [of "CHR ''#''" "''5''" 5 "[]", THEN conjunct1,
      rule_format, of "''HELLO''"]
    parseRDBBulkString_lead_byte_unchecked [of "CHR ''#''" "''281474976710657''"
      281474976710657 "''HELLO''", THEN conjunct2]
  by (simp add: ParseInt_eval LF_def maxAlloc_def)

text \<open>
  The claim as stated has every positive 64-bit length accepted and \<open>n\<close> bytes read. For
  the header line \<^verbatim>\<open>#9223372036854775807\<close> the helper reads nothing: \<^verbatim>\<open>make\<close> panics.
\<close>

theorem parseRDBBulkString_lead_byte_counterexample:
  "ParseInt ''9223372036854775807'' 64 = Some 9223372036854775807
   \<and> parseRDBBulkString (''#9223372036854775807'' @ CRLF @ ''HELLO'') =
        ([], Panicked MakesliceLenOutOfRange)"
  using parseRDBBulkString_too_long [of "CHR ''#''" "''9223372036854775807''"
      9223372036854775807 "''HELLO''"]
  by (simp add: ParseInt_eval LF_def maxAlloc_def)

text \<open>
  Claim C3, as amended. After a status line whose content starts with \<^verbatim>\<open>FULLRESYNC\<close>
  the decoder first emits the status, then reads one header line \<^verbatim>\<open>$<n>\<close>. When \<open>n\<close>
  is a positive integer that is at most \<^verbatim>\<open>maxAlloc\<close> it reads exactly \<open>n\<close> raw bytes,
  emits the bulk of these bytes and goes on with the byte that follows them: no terminator
  is expected or consumed. When the header does not parse or \<open>n \<le> 0\<close>, it sends one
  error, closes the channel and stops. When \<open>n\<close> is more than \<^verbatim>\<open>maxAlloc\<close> the decoder
  panics in \<^verbatim>\<open>make\<close>: after the status nothing is sent, the panic is logged and the
  channel stays open.
\<close>

theorem parse0_FULLRESYNC:
  assumes "LF \<notin> set content" "HasPrefix content ''FULLRESYNC''"
  shows
  "(\<forall>n body. ParseInt ds 64 = Some n \<and> 0 < n \<and> n \<le> maxAlloc \<and> length body = nat n \<longrightarrow>
      parse0 (CHR ''+'' # content @ CRLF @ CHR ''$'' # ds @ CRLF @ body @ rest) =
        Send (dataPayload (StatusReply content)) #
        Send (dataPayload (BulkReply (Some body))) # parse0 rest)
   \<and> (LF \<notin> set ds \<and> (ParseInt ds 64 = None \<or> (\<exists>n. ParseInt ds 64 = Some n \<and> n \<le> 0)) \<longrightarrow>
      parse0 (CHR ''+'' # content @ CRLF @ CHR ''$'' # ds @ CRLF @ rest) =
        [Send (dataPayload (StatusReply content)),
         Send (errPayload (ErrorString (''illegal bulk header'' @ CHR ''$'' # ds))), Close])
   \<and> (\<forall>n. ParseInt ds 64 = Some n \<and> maxAlloc < n \<longrightarrow>
      parse0 (CHR ''+'' # content @ CRLF @ CHR ''$'' # ds @ CRLF @ rest) =
        [Send (dataPayload (StatusReply content)), LogError MakesliceLenOutOfRange])"
proof -
  have l: "LF \<notin> set (CHR ''+'' # content)" "CHR ''+'' # content \<noteq> []"
    using assms(1) by (simp_all add: LF_def)
  have d: "CHR ''$'' \<noteq> LF" by (simp add: LF_def)
  show ?thesis
  proof (intro conjI impI allI)
    fix n and body :: bytes
    assume a: "ParseInt ds 64 = Some n \<and> 0 < n \<and> n \<le> maxAlloc \<and> length body = nat n"
    then have "parseRDBBulkString (CHR ''$'' # ds @ CRLF @ body @ rest) =
        ([Send (dataPayload (BulkReply (Some body)))], Next rest)"
      by (intro parseRDBBulkString_body d) auto
    then have "parse0_switch (CHR ''+'' # content) (CHR ''$'' # ds @ CRLF @ body @ rest) =
        ([Send (dataPayload (StatusReply content)), Send (dataPayload (BulkReply (Some body)))],
         Some rest)"
      by (simp add: parse0_switch_FULLRESYNC [OF assms(2)])
    from parse0_line [OF l this]
    show "parse0 (CHR ''+'' # content @ CRLF @ CHR ''$'' # ds @ CRLF @ body @ rest) =
        Send (dataPayload (StatusReply content)) #
        Send (dataPayload (BulkReply (Some body))) # parse0 rest"
      by simp
  next
    assume a: "LF \<notin> set ds \<and> (ParseInt ds 64 = None \<or> (\<exists>n. ParseInt ds 64 = Some n \<and> n \<le> 0))"
    then have "parseRDBBulkString (CHR ''$'' # ds @ CRLF @ rest) =
        ([], Failed (ErrorString (''illegal bulk header'' @ CHR ''$'' # ds)))"
      by (intro parseRDBBulkString_illegal d) auto
    then have "parse0_switch (CHR ''+'' # content) (CHR ''$'' # ds @ CRLF @ rest) =
        ([Send (dataPayload (StatusReply content)),
          Send (errPayload (ErrorString (''illegal bulk header'' @ CHR ''$'' # ds))), Close], None)"
      by (simp add: parse0_switch_FULLRESYNC [OF assms(2)])
    from parse0_line_end [OF l this]
    show "parse0 (CHR ''+'' # content @ CRLF @ CHR ''$'' # ds @ CRLF @ rest) =
        [Send (dataPayload (StatusReply content)),
         Send (errPayload (ErrorString (''illegal bulk header'' @ CHR ''$'' # ds))), Close]"
      by simp
  next
    fix n
    assume a: "ParseInt ds 64 = Some n \<and> maxAlloc < n"
    then have "parseRDBBulkString (CHR ''$'' # ds @ CRLF @ rest) =
        ([], Panicked MakesliceLenOutOfRange)"
      by (intro parseRDBBulkString_too_long d) auto
    then have "parse0_switch (CHR ''+'' # content) (CHR ''$'' # ds @ CRLF @ rest) =
        ([Send (dataPayload (StatusReply content)), LogError MakesliceLenOutOfRange], None)"
      by (simp add: parse0_switch_FULLRESYNC [OF assms(2)])
    from parse0_line_end [OF l this]
    show "parse0 (CHR ''+'' # content @ CRLF @ CHR ''$'' # ds @ CRLF @ rest) =
        [Send (dataPayload (StatusReply content)), LogError MakesliceLenOutOfRange]"
      by simp
  qed
qed

theorem parse0_FULLRESYNC_witness:
  "LF \<notin> set ''FULLRESYNC id 0'' \<and> HasPrefix ''FULLRESYNC id 0'' ''FULLRESYNC''
   \<and> ParseInt ''5'' 64 = Some 5 \<and> (0::int) < 5 \<and> (5::int) \<le> maxAlloc
   \<and> length ''HELLO'' = nat 5
   \<and> parse0 (''+FULLRESYNC id 0'' @ CRLF @ ''$5'' @ CRLF @ ''HELLO'') =
       [Send (dataPayload (StatusReply ''FULLRESYNC id 0'')),
        Send (dataPayload (BulkReply (Some ''HELLO''))), Send (errPayload EOF), Close]
   \<and> parse0 (''+FULLRESYNC id 0'' @ CRLF @ ''$5'' @ CRLF @ ''HELLO'' @ ''+OK'' @ CRLF) =
       [Send (dataPayload (StatusReply ''FULLRESYNC id 0'')),
        Send (dataPayload (BulkReply (Some ''HELLO''))),
        Send (dataPayload (StatusReply ''OK'')), Send (errPayload EOF), Close]
   \<and> LF \<notin> set ''0'' \<and> ParseInt ''0'' 64 = Some 0
   \<and> parse0 (''+FULLRESYNC id 0'' @ CRLF @ ''$0'' @ CRLF @ ''+OK'' @ CRLF) =
       [Send (dataPayload (StatusReply ''FULLRESYNC id 0'')),
        Send (errPayload (ErrorString ''illegal bulk header$0'')), Close]
   \<and> ParseInt ''281474976710657'' 64 = Some 281474976710657 \<and> maxAlloc < 281474976710657
   \<and> parse0 (''+FULLRESYNC id 0'' @ CRLF @ ''$281474976710657'' @ CRLF @ ''HELLO'') =
       [Send (dataPayload (StatusReply ''FULLRESYNC id 0'')), LogError MakesliceLenOutOfRange]"
  using parse0_FULLRESYNC [of "''FULLRESYNC id 0''" "''5''" "[]", THEN conjunct1,
      rule_format, of 5 "''HELLO''"]
    parse0_FULLRESYNC [of "''FULLRESYNC id 0''" "''5''" "''+OK'' @ CRLF", THEN conjunct1,
      rule_format, of 5 "''HELLO''"]
    parse0_FULLRESYNC [of "''FULLRESYNC id 0''" "''0''" "''+OK'' @ CRLF", THEN conjunct2,
      THEN conjunct1]
    parse0_FULLRESYNC [of "''FULLRESYNC id 0''" "''281474976710657''" "''HELLO''",
      THEN conjunct2, THEN conjunct2, rule_format, of 281474976710657]
    parse0_status [of "''OK''" "[]"]
  by (simp add: ParseInt_eval LF_def HasPrefix_def parse0_Nil maxAlloc_def)

text \<open>
  The claim as stated has every positive \<open>n\<close> followed by the reading of \<open>n\<close> bytes and a
  bulk, and every other value by a terminal error. For \<^verbatim>\<open>$9223372036854775807\<close> the
  decoder does neither: after the status \<^verbatim>\<open>make\<close> panics, no payload follows and the
  channel is not closed.
\<close>

theorem parse0_FULLRESYNC_counterexample:
  "ParseInt ''9223372036854775807'' 64 = Some 9223372036854775807
   \<and> parse0 (''+FULLRESYNC id 0'' @ CRLF @ ''$9223372036854775807'' @ CRLF @ ''HELLO'') =
       [Send (dataPayload (StatusReply ''FULLRESYNC id 0'')), LogError MakesliceLenOutOfRange]"
proof -
  have p: "ParseInt ''9223372036854775807'' 64 = Some 9223372036854775807"
    by (simp add: ParseInt_eval)
  have "parseRDBBulkString (CHR ''$'' # ''9223372036854775807'' @ CRLF @ ''HELLO'') =
      ([], Panicked MakesliceLenOutOfRange)"
    by (rule parseRDBBulkString_too_long [OF _ p]) (simp_all add: LF_def maxAlloc_def)
  then have "parse0_switch ''+FULLRESYNC id 0'' (''$9223372036854775807'' @ CRLF @ ''HELLO'') =
      ([Send (dataPayload (StatusReply ''FULLRESYNC id 0'')), LogError MakesliceLenOutOfRange], None)"
    using parse0_switch_FULLRESYNC [of "''FULLRESYNC id 0''" "''$9223372036854775807'' @ CRLF @ ''HELLO''"]
    by (simp add: HasPrefix_def)
  with parse0_line_end [of "''+FULLRESYNC id 0''" "''$9223372036854775807'' @ CRLF @ ''HELLO''"]
  show ?thesis by (simp add: p LF_def)
qed

text \<open>
  Claim C1, which the code does not meet. For an array frame with count \<open>n \<ge> 1\<close> whose
  nested lines are all well formed the decoder does emit one \<^verbatim>\<open>MultiBulk\<close>, but its
  elements are \<open>n\<close> absent ones followed by the \<open>n\<close> parsed ones:
  \<^verbatim>\<open>make([][]byte, nStrs)\<close> already holds \<open>n\<close> nil entries and \<^verbatim>\<open>append\<close> adds
  behind them (lemma \<open>parse0_array_elems\<close> has this for every such frame). On the frame
  of the source's own comment, \<^verbatim>\<open>*2\r\n$3\r\nfoo\r\n$3\r\nbar\r\n\<close>, the payload holds
  four elements.
\<close>

theorem parseArray_two_elements:
  "parse0 (''*2'' @ CRLF @ ''$3'' @ CRLF @ ''foo'' @ CRLF @ ''$3'' @ CRLF @ ''bar'' @ CRLF) =
     [Send (dataPayload (MultiBulkReply [None, None, Some ''foo'', Some ''bar''])),
      Send (errPayload EOF), Close]"
proof -
  have ok: "list_all elem_ok [Elem ''3'' ''foo'' CRLF, Elem ''3'' ''bar'' CRLF]"
    by (simp add: ParseInt_eval CRLF_def maxAlloc_def)
  have n: "ParseInt ''2'' 32 = Some (int (length [Elem ''3'' ''foo'' CRLF, Elem ''3'' ''bar'' CRLF]))"
    by (simp add: ParseInt_eval)
  from parse0_array_elems [OF ok _ n, of "[]"] show ?thesis
    by (simp add: parse0_Nil)
qed

text \<open>
  Claim C2, which the code does not meet. A malformed nested header makes the decoder
  send one protocol error, but the \<^verbatim>\<open>break\<close> leaves the loop for the statement after
  it, which sends the \<^verbatim>\<open>MultiBulk\<close> of what \<^verbatim>\<open>lines\<close> holds so far (lemma
  \<open>parse0_array_bad_line\<close> has this for every such frame); decoding then goes on at the
  next line. On the spec's example the error is followed by a \<^verbatim>\<open>MultiBulk\<close> of three
  elements.
\<close>

theorem parseArray_malformed_element:
  "parse0 (''*2'' @ CRLF @ ''$3'' @ CRLF @ ''foo'' @ CRLF @ ''BADLINE'' @ CRLF) =
     [Send (errPayload (ErrorString (''protocol error: illegal bulk string header BADLINE'' @ CRLF))),
      Send (dataPayload (MultiBulkReply [None, None, Some ''foo''])),
      Send (errPayload EOF), Close]"
proof -
  have ok: "list_all elem_ok [Elem ''3'' ''foo'' CRLF]"
    by (simp add: ParseInt_eval CRLF_def maxAlloc_def)
  have n: "ParseInt ''2'' 32 = Some 2" by (simp add: ParseInt_eval)
  have b: "LF \<notin> set (''BADLINE'' @ [CR])" by (simp add: LF_def CR_def)
  from parse0_array_bad_line [OF ok n _ b, of "[]"] show ?thesis
    by (simp add: parse0_Nil protocolError_def CRLF_def numeral_2_eq_2)
qed




end
